theory Spec2Isabelle
  imports Main
begin

section \<open>Errors, outcomes and the store interface\<close>

text \<open>
  The election session of \<^verbatim>\<open>src/election.ts\<close> is a class whose methods are
  asynchronous: every call to the store is awaited, and may resolve, reject, or not be
  settled yet. A method is embedded as a function from the world to an outcome and the
  new world.

  \<^item> \<open>Returned v\<close>: the promise resolved with \<open>v\<close>;
  \<^item> \<open>Raised e\<close>: it rejected with \<open>e\<close> (a \<^verbatim>\<open>throw\<close>);
  \<^item> \<open>Suspended\<close>: the method is parked at an \<^verbatim>\<open>await\<close>, on a request the store
    has not answered or on a watch that stays silent; the world is the one the rest of the
    program sees meanwhile.

  The errors are the two of \<^verbatim>\<open>./errors\<close> the file throws itself, the
  \<^verbatim>\<open>TypeError\<close> of reading a property of \<^verbatim>\<open>undefined\<close>, and the failures
  of the store, which are opaque to this layer and carry their message.

  The model is sequential: a method runs from its call to its outcome, and the handler of
  a lost lease runs between two methods, not in the middle of one. A parked method is not
  resumed: what it does once the answer comes is the run of the same method in an
  environment that gives the answer. What happens in the store meanwhile, other candidates
  included, is in the answers of the environment.
\<close>

datatype error = EtcdNoLeaderError | EtcdNotLeaderError | TypeError | StoreError string

datatype 'a outcome = Returned 'a | Raised error | Suspended

type_synonym lease_ref = nat
type_synonym watcher = nat

text \<open>
  A range read is \<^verbatim>\<open>getAll()\<close> with an optional \<^verbatim>\<open>maxCreateRevision\<close> and a sort on
  the creation revision (the only sort target the file uses).
\<close>

datatype sort_order = Ascend | Descend

record range_query =
  max_create_revision :: "string option"
  sort_create :: sort_order

text \<open>
  A transaction is \<^verbatim>\<open>if(key, 'Create', '==', v).then(ops).else(ops)\<close>: the only
  comparison the file uses is equality on the creation revision of one key. The number
  \<^verbatim>\<open>0\<close> of \<^verbatim>\<open>campaign\<close> is written \<open>''0''\<close>. \<open>Put key value lease\<close> is
  \<^verbatim>\<open>put(key).value(value).lease(lease)\<close>.
\<close>

datatype txn_op = Put string string string | Get string | Delete string

record txn =
  cmp_key :: string
  cmp_create :: string
  then_ops :: "txn_op list"
  else_ops :: "txn_op list"

record kv =
  kv_key :: string
  kv_value :: string
  kv_create_revision :: string

datatype op_response = ResponsePut | ResponseRange "kv list" | ResponseDeleteRange

record txn_response =
  header_revision :: string
  succeeded :: bool
  responses :: "op_response list"

datatype watch_target = WatchKey string | WatchPrefix string

datatype watch_event = PutEvent string | DeleteEvent | ErrorEvent string

text \<open>
  What the session does to the outside, in order: the calls on lease objects, the store
  requests (each with the namespace prefix it is issued in), the watches it opens and
  cancels, and the events it emits to its listeners.
\<close>

datatype action =
    LeaseNew string nat lease_ref
  | LeaseOnLost lease_ref
  | LeaseRemoveAllListeners lease_ref
  | LeaseGrant lease_ref
  | LeaseRevoke lease_ref
  | Commit string txn
  | RangeKeys string range_query
  | GetString string string
  | WatchCreate string watch_target watcher
  | WatchCancel watcher
  | EmitLeader string
  | EmitError error

text \<open>
  The store and the other clients are the environment. It answers every request; the
  answer may depend on the request and on the moment it is made (the number of actions
  the session has performed so far), so that any store behaviour, and any interference of
  other candidates, is some environment. \<open>Resolved v\<close> is a promise resolved with
  \<open>v\<close>, \<open>Rejected msg\<close> a rejected call, \<open>Pending\<close> a request that has no answer
  yet. The events a watcher delivers after its listeners are attached are a finite list; a
  list without a settling event is a watch that stays silent.
\<close>

datatype 'a reply = Resolved 'a | Rejected string | Pending

record env =
  lease_grant :: "nat \<Rightarrow> lease_ref \<Rightarrow> string reply"
  lease_revoke :: "nat \<Rightarrow> lease_ref \<Rightarrow> unit reply"
  txn_commit :: "nat \<Rightarrow> string \<Rightarrow> txn \<Rightarrow> txn_response reply"
  range_keys :: "nat \<Rightarrow> string \<Rightarrow> range_query \<Rightarrow> string list reply"
  get_string :: "nat \<Rightarrow> string \<Rightarrow> string \<Rightarrow> string option reply"
  watch_create :: "nat \<Rightarrow> string \<Rightarrow> watch_target \<Rightarrow> unit reply"
  watch_events :: "nat \<Rightarrow> watcher \<Rightarrow> watch_event list"
  watch_cancel :: "nat \<Rightarrow> watcher \<Rightarrow> unit reply"

section \<open>The session state\<close>

text \<open>
  The fields of class \<^verbatim>\<open>Election\<close>. \<open>parent\<close> is the key prefix of the parent
  namespace; \<open>leaderListeners\<close> and \<open>errorListeners\<close> are
  \<^verbatim>\<open>listenerCount('leader')\<close> and \<^verbatim>\<open>listenerCount('error')\<close> of the event emitter
  the class extends. A lease object is known by the moment of its creation.
\<close>

record election =
  parent :: string
  name :: string
  ttl :: nat
  lease :: "lease_ref option"
  leaseId :: string
  leaderKey :: string
  leaderRevision :: string
  isCampaigning :: bool
  isObserving :: bool
  leaderListeners :: nat
  errorListeners :: nat

record world =
  sess :: election
  trace :: "action list"

definition getPrefix :: "election \<Rightarrow> string" where
  "getPrefix s = ''election'' @ ''/'' @ name s @ ''/''"

definition namespace :: "election \<Rightarrow> string" where
  "namespace s = parent s @ getPrefix s"

definition isReady :: "election \<Rightarrow> bool" where
  "isReady s = (length (leaseId s) > 0)"

definition clock :: "world \<Rightarrow> nat" where
  "clock w = length (trace w)"

definition perform :: "action \<Rightarrow> world \<Rightarrow> world" where
  "perform a w = w\<lparr>trace := trace w @ [a]\<rparr>"

definition upd :: "(election \<Rightarrow> election) \<Rightarrow> world \<Rightarrow> world" where
  "upd f w = w\<lparr>sess := f (sess w)\<rparr>"

section \<open>Awaiting, the calls to the store, and the events\<close>

definition await :: "'a outcome \<times> world \<Rightarrow> ('a \<Rightarrow> world \<Rightarrow> 'b outcome \<times> world) \<Rightarrow> 'b outcome \<times> world" where
  "await r k = (case r of
      (Returned v, w) \<Rightarrow> k v w
    | (Raised e, w) \<Rightarrow> (Raised e, w)
    | (Suspended, w) \<Rightarrow> (Suspended, w))"

text \<open>
  \<^verbatim>\<open>try { body } finally { fin }\<close>: the final block runs on both exits of the body, and
  an error of the final block replaces the body's result. A body that is parked has not
  reached it.
\<close>

definition try_finally :: "(world \<Rightarrow> 'a outcome \<times> world) \<Rightarrow> (world \<Rightarrow> unit outcome \<times> world) \<Rightarrow> world \<Rightarrow> 'a outcome \<times> world" where
  "try_finally body fin w = (case body w of
      (Suspended, w1) \<Rightarrow> (Suspended, w1)
    | (r, w1) \<Rightarrow> (case fin w1 of
          (Returned u, w2) \<Rightarrow> (r, w2)
        | (Raised e, w2) \<Rightarrow> (Raised e, w2)
        | (Suspended, w2) \<Rightarrow> (Suspended, w2)))"

definition call :: "action \<Rightarrow> 'a reply \<Rightarrow> world \<Rightarrow> 'a outcome \<times> world" where
  "call a reply w = (case reply of
      Resolved v \<Rightarrow> (Returned v, perform a w)
    | Rejected msg \<Rightarrow> (Raised (StoreError msg), perform a w)
    | Pending \<Rightarrow> (Suspended, perform a w))"

definition grant :: "env \<Rightarrow> lease_ref \<Rightarrow> world \<Rightarrow> string outcome \<times> world" where
  "grant ev l w = call (LeaseGrant l) (lease_grant ev (clock w) l) w"

definition revoke :: "env \<Rightarrow> lease_ref \<Rightarrow> world \<Rightarrow> unit outcome \<times> world" where
  "revoke ev l w = call (LeaseRevoke l) (lease_revoke ev (clock w) l) w"

definition commit :: "env \<Rightarrow> string \<Rightarrow> txn \<Rightarrow> world \<Rightarrow> txn_response outcome \<times> world" where
  "commit ev ns t w = call (Commit ns t) (txn_commit ev (clock w) ns t) w"

definition keys :: "env \<Rightarrow> string \<Rightarrow> range_query \<Rightarrow> world \<Rightarrow> string list outcome \<times> world" where
  "keys ev ns q w = call (RangeKeys ns q) (range_keys ev (clock w) ns q) w"

definition get_as_string :: "env \<Rightarrow> string \<Rightarrow> string \<Rightarrow> world \<Rightarrow> string option outcome \<times> world" where
  "get_as_string ev ns k w = call (GetString ns k) (get_string ev (clock w) ns k) w"

definition create_watch :: "env \<Rightarrow> string \<Rightarrow> watch_target \<Rightarrow> world \<Rightarrow> watcher outcome \<times> world" where
  "create_watch ev ns tg w =
     call (WatchCreate ns tg (clock w)) (map_reply (\<lambda>u. clock w) (watch_create ev (clock w) ns tg)) w"

definition cancel :: "env \<Rightarrow> watcher \<Rightarrow> world \<Rightarrow> unit outcome \<times> world" where
  "cancel ev wt w = call (WatchCancel wt) (watch_cancel ev (clock w) wt) w"

text \<open>
  \<^verbatim>\<open>this.emit('error', error)\<close>. The class extends the event emitter of the
  platform (Node's \<^verbatim>\<open>events\<close> module, not among the sources), which calls the
  listeners of the event in turn and returns, except that an \<^verbatim>\<open>error\<close> event
  emitted while no listener is registered for it throws the error it was given (itself,
  when it is an \<^verbatim>\<open>Error\<close> object, as the errors of the store and of this file
  are). Listeners belong to the caller: they are taken to return, and not to call the
  session while they run.
\<close>

definition emit_error :: "error \<Rightarrow> world \<Rightarrow> unit outcome \<times> world" where
  "emit_error e w =
     (if errorListeners (sess w) = 0 then (Raised e, perform (EmitError e) w)
      else (Returned (), perform (EmitError e) w))"

section \<open>Revision arithmetic\<close>

text \<open>
  Revisions travel as decimal strings: \<open>show_int\<close> prints an integer in decimal
  notation and \<open>parse_int\<close> reads one, with \<open>None\<close> for a string that is no signed
  decimal integer.
\<close>

definition digit_char :: "nat \<Rightarrow> char" where
  "digit_char d = ''0123456789'' ! d"

fun show_nat :: "nat \<Rightarrow> string" where
  "show_nat n = (if n < 10 then [digit_char n] else show_nat (n div 10) @ [digit_char (n mod 10)])"

declare show_nat.simps [simp del]

definition show_int :: "int \<Rightarrow> string" where
  "show_int i = (if i < 0 then CHR ''-'' # show_nat (nat (- i)) else show_nat (nat i))"

definition is_digit :: "char \<Rightarrow> bool" where
  "is_digit c = (48 \<le> (of_char c :: nat) \<and> (of_char c :: nat) \<le> 57)"

definition digit_val :: "char \<Rightarrow> nat" where
  "digit_val c = of_char c - 48"

definition parse_nat :: "string \<Rightarrow> nat option" where
  "parse_nat s = (if s \<noteq> [] \<and> list_all is_digit s
     then Some (foldl (\<lambda>a c. 10 * a + digit_val c) 0 s) else None)"

definition parse_int :: "string \<Rightarrow> int option" where
  "parse_int s = (if s \<noteq> [] \<and> hd s = CHR ''-''
     then map_option (\<lambda>n. - int n) (parse_nat (tl s))
     else map_option int (parse_nat s))"

text \<open>
  Modelled from the spec: \<^verbatim>\<open>new BigNumber(s).minus(1).toString()\<close> calls the library
  bignumber.js, which is not among the sources. The specification describes it as
  "arbitrary precision revision arithmetic (revisions are large integers, decrement by one
  for range bounds)": the string is read as an exact number, one is subtracted and the
  result is printed; a string that is no number (the empty string a cleared
  \<open>leaderRevision\<close> holds) gives \<^verbatim>\<open>NaN\<close>. The library is modelled on signed decimal
  integers, which is what the store sends; it prints integers below \<open>10 ^ 20\<close> in
  magnitude, hence every 64-bit revision, in plain decimal notation. The other notations
  it reads (fractions, exponents) and the exponential notation it prints for larger
  numbers are outside the model.
\<close>

definition bignumber_minus_one :: "string \<Rightarrow> string" where
  "bignumber_minus_one s = (case parse_int s of None \<Rightarrow> ''NaN'' | Some n \<Rightarrow> show_int (n - 1))"

section \<open>The deletion waiter\<close>

text \<open>
  \<^verbatim>\<open>watcher.once('delete', resolve); watcher.once('error', reject)\<close>: the first delete or
  error event settles the wait, put events pass by.
\<close>

fun first_delete_or_error :: "watch_event list \<Rightarrow> (string + unit) option" where
  "first_delete_or_error [] = None"
| "first_delete_or_error (DeleteEvent # es) = Some (Inr ())"
| "first_delete_or_error (ErrorEvent m # es) = Some (Inl m)"
| "first_delete_or_error (PutEvent k # es) = first_delete_or_error es"

definition await_delete :: "env \<Rightarrow> watcher \<Rightarrow> world \<Rightarrow> unit outcome \<times> world" where
  "await_delete ev wt w = (case first_delete_or_error (watch_events ev (clock w) wt) of
      None \<Rightarrow> (Suspended, w)
    | Some (Inl m) \<Rightarrow> (Raised (StoreError m), w)
    | Some (Inr u) \<Rightarrow> (Returned (), w))"

definition waitForDelete :: "env \<Rightarrow> string \<Rightarrow> string \<Rightarrow> world \<Rightarrow> unit outcome \<times> world" where
  "waitForDelete ev ns key w =
     await (create_watch ev ns (WatchKey key) w) (\<lambda>wt w1.
       try_finally (await_delete ev wt) (cancel ev wt) w1)"

text \<open>One task of \<^verbatim>\<open>keys.map(key => async () => ...)\<close>.\<close>

definition delete_task :: "env \<Rightarrow> string \<Rightarrow> string \<Rightarrow> world \<Rightarrow> unit outcome \<times> world" where
  "delete_task ev ns key w =
     await (get_as_string ev ns key w) (\<lambda>v w1.
       let keyExisted = (v \<noteq> None) in
       if \<not> keyExisted then (Returned (), w1)
       else waitForDelete ev ns key w1)"

text \<open>The loop \<^verbatim>\<open>while (task) { await task(); task = tasks.shift(); }\<close>.\<close>

fun run_tasks :: "(world \<Rightarrow> unit outcome \<times> world) list \<Rightarrow> world \<Rightarrow> unit outcome \<times> world" where
  "run_tasks [] w = (Returned (), w)"
| "run_tasks (task # tasks) w = await (task w) (\<lambda>u w1. run_tasks tasks w1)"

definition waitForDeletes :: "env \<Rightarrow> string \<Rightarrow> string list \<Rightarrow> world \<Rightarrow> unit outcome \<times> world" where
  "waitForDeletes ev ns ks w =
     (if length ks = 0 then (Returned (), w)
      else if length ks = 1 then waitForDelete ev ns (ks ! 0) w
      else run_tasks (map (delete_task ev ns) ks) w)"

section \<open>The election session\<close>

text \<open>\<^verbatim>\<open>this.lease = this.namespace.lease(this.ttl); this.lease.on('lost', ...)\<close>\<close>

definition new_lease :: "world \<Rightarrow> world" where
  "new_lease w =
     (let l = clock w;
          w1 = upd (\<lambda>s. s\<lparr>lease := Some l\<rparr>) (perform (LeaseNew (namespace (sess w)) (ttl (sess w)) l) w)
      in perform (LeaseOnLost l) w1)"

definition initialize :: "env \<Rightarrow> world \<Rightarrow> unit outcome \<times> world" where
  "initialize ev w =
     (if lease (sess w) = None then
        await (grant ev (clock w) (new_lease w)) (\<lambda>i w1.
          (Returned (), upd (\<lambda>s. s\<lparr>leaseId := i\<rparr>) w1))
      else (Returned (), w))"

definition proclaim_txn :: "election \<Rightarrow> string \<Rightarrow> txn" where
  "proclaim_txn s v = \<lparr>cmp_key = leaseId s, cmp_create = leaderRevision s,
     then_ops = [Put (leaseId s) v (leaseId s)], else_ops = []\<rparr>"

definition proclaim :: "env \<Rightarrow> string \<Rightarrow> world \<Rightarrow> unit outcome \<times> world" where
  "proclaim ev v w =
     (if \<not> isCampaigning (sess w) then (Raised EtcdNotLeaderError, w)
      else await (commit ev (namespace (sess w)) (proclaim_txn (sess w) v) w) (\<lambda>r w1.
        if \<not> succeeded r
        then (Raised EtcdNotLeaderError, upd (\<lambda>s. s\<lparr>leaderKey := ''''\<rparr>) w1)
        else (Returned (), w1)))"

definition resign_txn :: "election \<Rightarrow> txn" where
  "resign_txn s = \<lparr>cmp_key = leaseId s, cmp_create = leaderRevision s,
     then_ops = [Delete (leaseId s)], else_ops = []\<rparr>"

definition clear_candidacy :: "election \<Rightarrow> election" where
  "clear_candidacy s = s\<lparr>leaderKey := '''', leaderRevision := '''', isCampaigning := False\<rparr>"

definition resign :: "env \<Rightarrow> world \<Rightarrow> unit outcome \<times> world" where
  "resign ev w =
     (if \<not> isCampaigning (sess w) then (Returned (), w)
      else await (commit ev (namespace (sess w)) (resign_txn (sess w)) w) (\<lambda>r w1.
        if \<not> succeeded r then
          (case lease (sess w1) of
             None \<Rightarrow> (Returned (), w1)
           | Some l \<Rightarrow> await (revoke ev l w1) (\<lambda>u w2.
               (Returned (), upd clear_candidacy (upd (\<lambda>s. s\<lparr>leaseId := ''''\<rparr>) (new_lease w2)))))
        else (Returned (), upd clear_candidacy w1)))"

definition getLeader :: "env \<Rightarrow> world \<Rightarrow> string outcome \<times> world" where
  "getLeader ev w =
     await (keys ev (namespace (sess w)) \<lparr>max_create_revision = None, sort_create = Ascend\<rparr> w)
       (\<lambda>result w1.
          if length result = 0 then (Raised EtcdNoLeaderError, w1)
          else (Returned (getPrefix (sess w1) @ result ! 0), w1))"

definition waitForElected :: "env \<Rightarrow> world \<Rightarrow> unit outcome \<times> world" where
  "waitForElected ev w =
     (let lastRevision = bignumber_minus_one (leaderRevision (sess w)) in
      await (keys ev (namespace (sess w))
               \<lparr>max_create_revision = Some lastRevision, sort_create = Descend\<rparr> w)
        (\<lambda>result w1.
           if length result = 0 then (Returned (), w1)
           else waitForDeletes ev (namespace (sess w1)) result w1))"

definition campaign_txn :: "election \<Rightarrow> string \<Rightarrow> txn" where
  "campaign_txn s v = \<lparr>cmp_key = leaseId s, cmp_create = ''0'',
     then_ops = [Put (leaseId s) v (leaseId s)], else_ops = [Get (leaseId s)]\<rparr>"

text \<open>
  \<^verbatim>\<open>result.responses[0].response_range.kvs[0]\<close>, where reading a property of
  \<^verbatim>\<open>undefined\<close> throws: \<open>None\<close> is that \<^verbatim>\<open>TypeError\<close>, which for an empty
  \<^verbatim>\<open>kvs\<close> is thrown by \<^verbatim>\<open>kv.create_revision\<close> on the next line.
\<close>

fun first_kv :: "op_response list \<Rightarrow> kv option" where
  "first_kv (ResponseRange (k # ks) # rs) = Some k"
| "first_kv rs = None"

text \<open>The body of the \<^verbatim>\<open>try\<close> under \<^verbatim>\<open>if (!result.succeeded)\<close>.\<close>

definition existing_candidacy :: "env \<Rightarrow> string \<Rightarrow> txn_response \<Rightarrow> world \<Rightarrow> unit outcome \<times> world" where
  "existing_candidacy ev v result w =
     (case first_kv (responses result) of
        None \<Rightarrow> (Raised TypeError, w)
      | Some k \<Rightarrow>
          let w1 = upd (\<lambda>s. s\<lparr>leaderRevision := kv_create_revision k\<rparr>) w in
          if kv_value k \<noteq> v then proclaim ev v w1 else (Returned (), w1))"

text \<open>\<^verbatim>\<open>try { body } catch (error) { await this.resign(); throw error; }\<close>\<close>

definition catch_resign :: "env \<Rightarrow> (world \<Rightarrow> unit outcome \<times> world) \<Rightarrow> world \<Rightarrow> unit outcome \<times> world" where
  "catch_resign ev body w = (case body w of
      (Raised e, w1) \<Rightarrow> await (resign ev w1) (\<lambda>u w2. (Raised e, w2))
    | r \<Rightarrow> r)"

definition record_candidacy :: "txn_response \<Rightarrow> election \<Rightarrow> election" where
  "record_candidacy result s = s\<lparr>leaderKey := getPrefix s @ leaseId s,
     leaderRevision := header_revision result, isCampaigning := True\<rparr>"

definition campaign :: "env \<Rightarrow> string \<Rightarrow> world \<Rightarrow> unit outcome \<times> world" where
  "campaign ev v w =
     await (initialize ev w) (\<lambda>u w1.
     await (commit ev (namespace (sess w1)) (campaign_txn (sess w1) v) w1) (\<lambda>result w2.
       let w3 = upd (record_candidacy result) w2 in
       await (if \<not> succeeded result
              then catch_resign ev (existing_candidacy ev v result) w3
              else (Returned (), w3)) (\<lambda>u w4.
         catch_resign ev (waitForElected ev) w4)))"

section \<open>The leader observer\<close>

text \<open>
  \<^verbatim>\<open>watcher.on('put', kv => resolve(kv.key.toString())); watcher.on('error', reject)\<close>:
  the first put or error event settles the promise.
\<close>

fun first_put_or_error :: "watch_event list \<Rightarrow> (string + string) option" where
  "first_put_or_error [] = None"
| "first_put_or_error (PutEvent k # es) = Some (Inr k)"
| "first_put_or_error (ErrorEvent m # es) = Some (Inl m)"
| "first_put_or_error (DeleteEvent # es) = first_put_or_error es"

definition await_put :: "env \<Rightarrow> watcher \<Rightarrow> world \<Rightarrow> string outcome \<times> world" where
  "await_put ev wt w = (case first_put_or_error (watch_events ev (clock w) wt) of
      None \<Rightarrow> (Suspended, w)
    | Some (Inl m) \<Rightarrow> (Raised (StoreError m), w)
    | Some (Inr k) \<Rightarrow> (Returned k, w))"

text \<open>
  The \<^verbatim>\<open>try { ... } finally { this._isObserving = false; }\<close> of \<^verbatim>\<open>observe\<close>: one
  turn of the observation loop.
\<close>

definition observe_body :: "env \<Rightarrow> world \<Rightarrow> unit outcome \<times> world" where
  "observe_body ev w =
     try_finally
       (\<lambda>w0.
          let w1 = upd (\<lambda>s. s\<lparr>isObserving := True\<rparr>) w0 in
          await (keys ev (namespace (sess w1))
                   \<lparr>max_create_revision = None, sort_create = Ascend\<rparr> w1) (\<lambda>result w2.
          await (if length result = 0
                 then await (create_watch ev (parent (sess w2)) (WatchPrefix (getPrefix (sess w2))) w2)
                        (\<lambda>wt w3. try_finally (await_put ev wt) (cancel ev wt) w3)
                 else (Returned (getPrefix (sess w2) @ result ! 0), w2)) (\<lambda>leader w4.
          waitForDelete ev (parent (sess w4)) leader (perform (EmitLeader leader) w4))))
       (\<lambda>w5. (Returned (), upd (\<lambda>s. s\<lparr>isObserving := False\<rparr>) w5))
       w"

text \<open>
  \<^verbatim>\<open>observe\<close> and \<^verbatim>\<open>tryObserve\<close> call each other for as long as a listener remains,
  so they take fuel: \<open>None\<close> is a loop that is still running when the fuel is spent.
  \<^verbatim>\<open>tryObserve\<close> does not await \<^verbatim>\<open>observe\<close>; the turns of the loop are put in
  sequence here. In the handler \<^verbatim>\<open>error => { this.emit('error', error); this.tryObserve(); }\<close>
  the restart comes after the emit: when the emit throws, for want of a listener, the
  handler ends there, nothing awaits the promise it rejects, and the loop is not started
  again.
\<close>

fun observe :: "nat \<Rightarrow> env \<Rightarrow> world \<Rightarrow> (unit outcome \<times> world) option"
  and tryObserve :: "nat \<Rightarrow> env \<Rightarrow> world \<Rightarrow> world option" where
  "observe 0 ev w = None"
| "observe (Suc n) ev w =
     (if isObserving (sess w) then Some (Returned (), w)
      else (case observe_body ev w of
          (Returned u, w1) \<Rightarrow>
            if leaderListeners (sess w1) > 0
            then map_option (\<lambda>w2. (Returned (), w2)) (tryObserve n ev w1)
            else Some (Returned (), w1)
        | (Raised e, w1) \<Rightarrow> Some (Raised e, w1)
        | (Suspended, w1) \<Rightarrow> Some (Suspended, w1)))"
| "tryObserve 0 ev w = None"
| "tryObserve (Suc n) ev w =
     (case observe n ev w of
        None \<Rightarrow> None
      | Some (Raised e, w1) \<Rightarrow>
          (case emit_error e w1 of
             (Returned u, w2) \<Rightarrow> tryObserve n ev w2
           | (r, w2) \<Rightarrow> Some w2)
      | Some (r, w1) \<Rightarrow> Some w1)"

definition shouldObserve :: "string \<Rightarrow> bool" where
  "shouldObserve event = (event = ''leader'')"

definition onNewListener :: "nat \<Rightarrow> env \<Rightarrow> string \<Rightarrow> world \<Rightarrow> world option" where
  "onNewListener n ev event w = (if shouldObserve event then tryObserve n ev w else Some w)"

section \<open>Lease-loss recovery\<close>

text \<open>The \<^verbatim>\<open>if (this.lease) { ... }\<close> of \<^verbatim>\<open>onLeaseLost\<close>.\<close>

definition drop_lease :: "world \<Rightarrow> world" where
  "drop_lease w = (case lease (sess w) of
      Some l \<Rightarrow> upd (\<lambda>s. s\<lparr>lease := None, leaseId := ''''\<rparr>) (perform (LeaseRemoveAllListeners l) w)
    | None \<Rightarrow> w)"

text \<open>
  \<^verbatim>\<open>this.initialize().catch(error => this.emit('error', error))\<close>: nothing follows the
  emit and nothing awaits the handler, so an emit that throws leaves the same world as one
  that returns.
\<close>

definition onLeaseLost :: "env \<Rightarrow> world \<Rightarrow> world" where
  "onLeaseLost ev w = (case initialize ev (drop_lease w) of
      (Raised e, w1) \<Rightarrow> snd (emit_error e w1)
    | (r, w1) \<Rightarrow> w1)"

section \<open>The store, as the specification describes it\<close>

text \<open>
  Modelled from the spec: the store facade (classes \<^verbatim>\<open>Namespace\<close> and \<^verbatim>\<open>Lease\<close>
  and the builders behind \<^verbatim>\<open>getAll\<close>, \<^verbatim>\<open>if\<close>, \<^verbatim>\<open>put\<close>, \<^verbatim>\<open>delete\<close>) is not
  among the sources. The specification gives it a global revision advanced by every
  mutation, a creation revision per key that is stable across value updates, "range read
  over a key prefix with sort by creation revision ascending or descending and a
  maxCreateRevision bound, returning keys", and the conditional transaction "if the
  creation revision of a key equals a value then ops else ops", where a creation revision
  of zero is an absent key. Keys are stored in full and returned relative to the
  namespace that reads them. A revision that is no decimal integer is rejected.
\<close>

record entry =
  e_key :: string
  e_value :: string
  e_create :: int
  e_lease :: string

record store =
  st_revision :: int
  st_entries :: "entry list"

definition under_prefix :: "string \<Rightarrow> entry \<Rightarrow> bool" where
  "under_prefix ns e = (take (length ns) (e_key e) = ns)"

definition relative :: "string \<Rightarrow> entry \<Rightarrow> string" where
  "relative ns e = drop (length ns) (e_key e)"

definition by_create :: "sort_order \<Rightarrow> entry list \<Rightarrow> entry list" where
  "by_create ord es = (case ord of
      Ascend \<Rightarrow> sort_key e_create es
    | Descend \<Rightarrow> rev (sort_key e_create es))"

text \<open>
  Modelled from the spec: the range read behind \<^verbatim>\<open>getAll().keys()\<close>, missing from the
  sources. It returns the keys under the prefix, relative to it, sorted by creation
  revision; \<^verbatim>\<open>maxCreateRevision\<close> keeps the keys whose creation revision is at most the
  bound.
\<close>

definition store_keys :: "entry list \<Rightarrow> string \<Rightarrow> range_query \<Rightarrow> string list reply" where
  "store_keys es ns q = (case max_create_revision q of
      None \<Rightarrow> Resolved (map (relative ns) (by_create (sort_create q) (filter (under_prefix ns) es)))
    | Some b \<Rightarrow> (case parse_int b of
          None \<Rightarrow> Rejected ''invalid revision''
        | Some m \<Rightarrow> Resolved (map (relative ns)
            (by_create (sort_create q) (filter (\<lambda>e. under_prefix ns e \<and> e_create e \<le> m) es)))))"

text \<open>
  Modelled from the spec: the conditional transaction behind \<^verbatim>\<open>if(...).then(...).else(...).commit()\<close>,
  missing from the sources. A put keeps the creation revision of a key that exists and
  gives a new key the revision of the write; every mutation advances the revision of the
  store; the reply carries the revision of the store after the transaction.
\<close>

definition create_revision :: "entry list \<Rightarrow> string \<Rightarrow> int" where
  "create_revision es k = (case find (\<lambda>e. e_key e = k) es of None \<Rightarrow> 0 | Some e \<Rightarrow> e_create e)"

fun store_op :: "string \<Rightarrow> txn_op \<Rightarrow> store \<Rightarrow> op_response \<times> store" where
  "store_op ns (Put k v l) st =
     (let r = st_revision st + 1 in
      (ResponsePut,
       \<lparr>st_revision = r,
        st_entries =
          (if \<exists>e \<in> set (st_entries st). e_key e = ns @ k
           then map (\<lambda>e. if e_key e = ns @ k then e\<lparr>e_value := v, e_lease := l\<rparr> else e) (st_entries st)
           else st_entries st @ [\<lparr>e_key = ns @ k, e_value = v, e_create = r, e_lease = l\<rparr>])\<rparr>))"
| "store_op ns (Get k) st =
     (ResponseRange (map (\<lambda>e. \<lparr>kv_key = relative ns e, kv_value = e_value e,
                               kv_create_revision = show_int (e_create e)\<rparr>)
                         (filter (\<lambda>e. e_key e = ns @ k) (st_entries st))), st)"
| "store_op ns (Delete k) st =
     (ResponseDeleteRange,
      \<lparr>st_revision = (if \<exists>e \<in> set (st_entries st). e_key e = ns @ k
                      then st_revision st + 1 else st_revision st),
       st_entries = filter (\<lambda>e. e_key e \<noteq> ns @ k) (st_entries st)\<rparr>)"

fun store_ops :: "string \<Rightarrow> txn_op list \<Rightarrow> store \<Rightarrow> op_response list \<times> store" where
  "store_ops ns [] st = ([], st)"
| "store_ops ns (x # xs) st =
     (case store_op ns x st of (r, st1) \<Rightarrow>
        (case store_ops ns xs st1 of (rs, st2) \<Rightarrow> (r # rs, st2)))"

definition store_commit :: "store \<Rightarrow> string \<Rightarrow> txn \<Rightarrow> txn_response reply \<times> store" where
  "store_commit st ns t = (case parse_int (cmp_create t) of
      None \<Rightarrow> (Rejected ''invalid revision'', st)
    | Some c \<Rightarrow>
        let ok = (create_revision (st_entries st) (ns @ cmp_key t) = c) in
        (case store_ops ns (if ok then then_ops t else else_ops t) st of (rs, st1) \<Rightarrow>
           (Resolved \<lparr>header_revision = show_int (st_revision st1), succeeded = ok, responses = rs\<rparr>, st1)))"

section \<open>The deletion waiter, in the words of the specification\<close>

text \<open>
  "For each key in order: first confirms the key still exists via a point read (skip
  immediately if already gone); otherwise delegates to \<^verbatim>\<open>waitForDelete\<close>. Proceeds to
  the next key only after the previous wait resolves."
\<close>

fun wait_each :: "env \<Rightarrow> string \<Rightarrow> string list \<Rightarrow> world \<Rightarrow> unit outcome \<times> world" where
  "wait_each ev ns [] w = (Returned (), w)"
| "wait_each ev ns (k # ks) w =
     (case get_as_string ev ns k w of
        (Returned None, w1) \<Rightarrow> wait_each ev ns ks w1
      | (Returned (Some v), w1) \<Rightarrow>
          (case waitForDelete ev ns k w1 of
             (Returned u, w2) \<Rightarrow> wait_each ev ns ks w2
           | (Raised e, w2) \<Rightarrow> (Raised e, w2)
           | (Suspended, w2) \<Rightarrow> (Suspended, w2))
      | (Raised e, w1) \<Rightarrow> (Raised e, w1)
      | (Suspended, w1) \<Rightarrow> (Suspended, w1))"

section \<open>Example sessions and stores\<close>

text \<open>
  A fresh session for the election \<open>svc\<close>, as the constructor leaves it, and a store
  that grants the lease \<open>7587\<close>, applies every transaction at revision \<open>12\<close>, holds no
  other candidate and reports a deletion on every watch.
\<close>

definition session0 :: election where
  "session0 = \<lparr>parent = '''', name = ''svc'', ttl = 60, lease = None, leaseId = '''',
     leaderKey = '''', leaderRevision = '''', isCampaigning = False, isObserving = False,
     leaderListeners = 0, errorListeners = 0\<rparr>"

definition world0 :: world where
  "world0 = \<lparr>sess = session0, trace = []\<rparr>"

definition store_ok :: env where
  "store_ok = \<lparr>
     lease_grant = (\<lambda>t l. Resolved ''7587''),
     lease_revoke = (\<lambda>t l. Resolved ()),
     txn_commit = (\<lambda>t ns x. Resolved \<lparr>header_revision = ''12'', succeeded = True, responses = [ResponsePut]\<rparr>),
     range_keys = (\<lambda>t ns q. Resolved []),
     get_string = (\<lambda>t ns k. Resolved None),
     watch_create = (\<lambda>t ns g. Resolved ()),
     watch_events = (\<lambda>t wt. [DeleteEvent]),
     watch_cancel = (\<lambda>t wt. Resolved ())\<rparr>"

text \<open>The session after \<^verbatim>\<open>campaign('a')\<close> on that store: it leads.\<close>

definition leading :: world where
  "leading = \<lparr>sess = session0\<lparr>lease := Some 0, leaseId := ''7587'',
       leaderKey := ''election/svc/7587'', leaderRevision := ''12'', isCampaigning := True\<rparr>,
     trace = [LeaseNew ''election/svc/'' 60 0, LeaseOnLost 0, LeaseGrant 0,
       Commit ''election/svc/'' \<lparr>cmp_key = ''7587'', cmp_create = ''0'',
         then_ops = [Put ''7587'' ''a'' ''7587''], else_ops = [Get ''7587'']\<rparr>,
       RangeKeys ''election/svc/'' \<lparr>max_create_revision = Some ''11'', sort_create = Descend\<rparr>]\<rparr>"

text \<open>
  A store on which the candidate key is gone (every compare fails, as after the lease
  expired), and the same store when it also refuses to revoke the expired lease.
\<close>

definition store_superseded :: env where
  "store_superseded = store_ok\<lparr>txn_commit :=
     (\<lambda>t ns x. Resolved \<lparr>header_revision = ''15'', succeeded = False, responses = []\<rparr>)\<rparr>"

definition store_lease_gone :: env where
  "store_lease_gone = store_superseded\<lparr>lease_revoke :=
     (\<lambda>t l. Rejected ''requested lease not found'')\<rparr>"

text \<open>
  A store that answers the first four calls and is unreachable from then on: the range
  read of the wait for the turn fails, and so does every later transaction.
\<close>

definition store_partitioned :: env where
  "store_partitioned = store_ok\<lparr>
     range_keys := (\<lambda>t ns q. Rejected ''range read: unavailable''),
     txn_commit := (\<lambda>t ns x. if t < 4
        then Resolved \<lparr>header_revision = ''12'', succeeded = True, responses = [ResponsePut]\<rparr>
        else Rejected ''transaction: unavailable'')\<rparr>"

text \<open>
  Three candidates of the election \<open>svc\<close> in a store at revision 14, and the environment
  that answers reads and transactions from a given store.
\<close>

definition three_candidates :: store where
  "three_candidates = \<lparr>st_revision = 14, st_entries =
     [\<lparr>e_key = ''election/svc/7587'', e_value = ''a'', e_create = 12, e_lease = ''7587''\<rparr>,
      \<lparr>e_key = ''election/svc/7586'', e_value = ''x'', e_create = 9, e_lease = ''7586''\<rparr>,
      \<lparr>e_key = ''election/svc/7588'', e_value = ''c'', e_create = 14, e_lease = ''7588''\<rparr>,
      \<lparr>e_key = ''election/other/7589'', e_value = ''d'', e_create = 3, e_lease = ''7589''\<rparr>]\<rparr>"

definition serving :: "store \<Rightarrow> env" where
  "serving st = store_ok\<lparr>
     range_keys := (\<lambda>t ns q. store_keys (st_entries st) ns q),
     txn_commit := (\<lambda>t ns x. fst (store_commit st ns x)),
     get_string := (\<lambda>t ns k. Resolved (map_option e_value (find (\<lambda>e. e_key e = ns @ k) (st_entries st)))),
     watch_events := (\<lambda>t wt. [])\<rparr>"

text \<open>
  A store that grants the lease and applies transactions, but fails every range read: the
  wait for the turn fails and the clean-up succeeds.
\<close>

definition store_wait_fails :: env where
  "store_wait_fails = store_ok\<lparr>range_keys := (\<lambda>t ns q. Rejected ''range read: unavailable'')\<rparr>"

text \<open>
  A store that has not answered the range read yet, and a session with one listener for
  errors.
\<close>

definition store_slow :: env where
  "store_slow = store_ok\<lparr>range_keys := (\<lambda>t ns q. Pending)\<rparr>"

definition listening :: world where
  "listening = \<lparr>sess = session0\<lparr>errorListeners := 1\<rparr>, trace = []\<rparr>"

text \<open>A store that holds one candidate, whose key is then deleted.\<close>

definition store_one_leader :: env where
  "store_one_leader = store_ok\<lparr>range_keys := (\<lambda>t ns q. Resolved [''7587''])\<rparr>"

section \<open>The operations a caller can perform\<close>

text \<open>
  \<^verbatim>\<open>election.on(event, listener)\<close>, the registration of a listener. The emitter first
  emits \<^verbatim>\<open>newListener\<close>, which the constructor has bound to \<^verbatim>\<open>onNewListener\<close>,
  and then adds the listener to those of the event. The observer that the handler starts
  reads \<^verbatim>\<open>listenerCount('leader')\<close> after the \<^verbatim>\<open>finally\<close> of its body only, hence
  after its first \<^verbatim>\<open>await\<close>, when the listener has been added: as a method runs to
  its outcome here, the listener is counted first.
\<close>

definition add_listener :: "string \<Rightarrow> election \<Rightarrow> election" where
  "add_listener event s =
     (if event = ''leader'' then s\<lparr>leaderListeners := Suc (leaderListeners s)\<rparr>
      else if event = ''error'' then s\<lparr>errorListeners := Suc (errorListeners s)\<rparr>
      else s)"

definition on_listener :: "nat \<Rightarrow> env \<Rightarrow> string \<Rightarrow> world \<Rightarrow> world option" where
  "on_listener n ev event w = onNewListener n ev event (upd (add_listener event) w)"

text \<open>
  The public operations of the session (\<^verbatim>\<open>initialize\<close>, \<^verbatim>\<open>campaign\<close>,
  \<^verbatim>\<open>proclaim\<close>, \<^verbatim>\<open>resign\<close>, \<^verbatim>\<open>getLeader\<close>) and the registration of a listener,
  which starts the observer; \<open>run_operation\<close> gives the world an operation leaves, and
  \<open>None\<close> when the observer it started is still running after \<open>n\<close> turns.
\<close>

datatype operation =
    Initialize
  | Campaign string
  | Proclaim string
  | Resign
  | GetLeader
  | NewListener string

fun run_operation :: "nat \<Rightarrow> env \<Rightarrow> operation \<Rightarrow> world \<Rightarrow> world option" where
  "run_operation n ev Initialize w = Some (snd (initialize ev w))"
| "run_operation n ev (Campaign v) w = Some (snd (campaign ev v w))"
| "run_operation n ev (Proclaim v) w = Some (snd (proclaim ev v w))"
| "run_operation n ev Resign w = Some (snd (resign ev w))"
| "run_operation n ev GetLeader w = Some (snd (getLeader ev w))"
| "run_operation n ev (NewListener event) w = on_listener n ev event w"

text \<open>
  A session that holds a lease object but no lease id: \<^verbatim>\<open>isReady\<close> is false, and
  \<^verbatim>\<open>initialize\<close> finds a lease and does nothing.
\<close>

definition lease_without_id :: "election \<Rightarrow> bool" where
  "lease_without_id s = (lease s \<noteq> None \<and> leaseId s = '''')"

section \<open>Basic facts\<close>

lemma sess_perform [simp]: "sess (perform a w) = sess w"
  by (simp add: perform_def)

lemma trace_perform [simp]: "trace (perform a w) = trace w @ [a]"
  by (simp add: perform_def)

lemma sess_upd [simp]: "sess (upd f w) = f (sess w)"
  by (simp add: upd_def)

lemma trace_upd [simp]: "trace (upd f w) = trace w"
  by (simp add: upd_def)

lemma clock_perform [simp]: "clock (perform a w) = Suc (clock w)"
  by (simp add: clock_def)

lemma clock_upd [simp]: "clock (upd f w) = clock w"
  by (simp add: clock_def)

lemma await_simps [simp]:
  "await (Returned v, w) k = k v w"
  "await (Raised e, w) k = (Raised e, w)"
  "await (Suspended, w) k = (Suspended, w)"
  by (simp_all add: await_def)

lemma call_simps [simp]:
  "call a (Rejected m) w = (Raised (StoreError m), perform a w)"
  "call a (Resolved v) w = (Returned v, perform a w)"
  "call a Pending w = (Suspended, perform a w)"
  by (simp_all add: call_def)

lemma snd_emit_error [simp]: "snd (emit_error e w) = perform (EmitError e) w"
  by (simp add: emit_error_def)

lemma call_world: "snd (call a reply w) = perform a w"
  by (cases reply) simp_all

section \<open>The deletion waiter\<close>

lemma run_tasks_wait_each:
  "run_tasks (map (delete_task ev ns) ks) w = wait_each ev ns ks w"
proof (induction ks arbitrary: w)
  case Nil
  show ?case by simp
next
  case (Cons k ks)
  obtain r w1 where g: "get_as_string ev ns k w = (r, w1)"
    by (cases "get_as_string ev ns k w")
  show ?case
  proof (cases r)
    case (Returned v)
    show ?thesis
    proof (cases v)
      case None
      with Returned g Cons show ?thesis by (simp add: delete_task_def)
    next
      case (Some s)
      obtain r2 w2 where d: "waitForDelete ev ns k w1 = (r2, w2)"
        by (cases "waitForDelete ev ns k w1")
      with Some Returned g Cons show ?thesis
        by (cases r2) (simp_all add: delete_task_def)
    qed
  next
    case (Raised e)
    with g show ?thesis by (simp add: delete_task_def)
  next
    case Suspended
    with g show ?thesis by (simp add: delete_task_def)
  qed
qed

text \<open>
  C6. \<^verbatim>\<open>waitForDeletes\<close> resolves at once on the empty list and performs nothing; on
  a single key it is \<^verbatim>\<open>waitForDelete\<close> on that key, with no point read; on two keys
  or more it takes the keys in order, reads each one first, skips it when it is gone and
  waits for its deletion otherwise, and goes on only when that wait has resolved.
\<close>

theorem waitForDeletes_in_order:
  "waitForDeletes ev ns [] w = (Returned (), w)
   \<and> waitForDeletes ev ns [k] w = waitForDelete ev ns k w
   \<and> waitForDeletes ev ns (k1 # k2 # ks) w = wait_each ev ns (k1 # k2 # ks) w"
proof (intro conjI)
  show "waitForDeletes ev ns [] w = (Returned (), w)"
    by (simp add: waitForDeletes_def)
  show "waitForDeletes ev ns [k] w = waitForDelete ev ns k w"
    by (simp add: waitForDeletes_def)
  have "waitForDeletes ev ns (k1 # k2 # ks) w =
      run_tasks (map (delete_task ev ns) (k1 # k2 # ks)) w"
    unfolding waitForDeletes_def by simp
  then show "waitForDeletes ev ns (k1 # k2 # ks) w = wait_each ev ns (k1 # k2 # ks) w"
    by (simp only: run_tasks_wait_each)
qed


lemma await_delete_world: "snd (await_delete ev wt w) = w"
  by (simp add: await_delete_def split: option.splits sum.splits)


lemma store_ok_simps [simp]:
  "lease_grant store_ok t l = Resolved ''7587''"
  "lease_revoke store_ok t l = Resolved ()"
  "txn_commit store_ok t ns x = Resolved \<lparr>header_revision = ''12'', succeeded = True, responses = [ResponsePut]\<rparr>"
  "range_keys store_ok t ns q = Resolved []"
  "get_string store_ok t ns k = Resolved None"
  "watch_create store_ok t ns g = Resolved ()"
  "watch_events store_ok t wt = [DeleteEvent]"
  "watch_cancel store_ok t wt = Resolved ()"
  by (simp_all add: store_ok_def)

lemma world0_simps [simp]:
  "sess world0 = session0" "trace world0 = []" "clock world0 = 0"
  by (simp_all add: world0_def clock_def)


section \<open>The example sessions and stores, evaluated\<close>

lemma leading_simps [simp]:
  "lease (sess leading) = Some 0" "leaseId (sess leading) = ''7587''"
  "leaderKey (sess leading) = ''election/svc/7587''" "leaderRevision (sess leading) = ''12''"
  "isCampaigning (sess leading) = True" "isObserving (sess leading) = False"
  "namespace (sess leading) = ''election/svc/''" "getPrefix (sess leading) = ''election/svc/''"
  "parent (sess leading) = []" "ttl (sess leading) = 60"
  "clock leading = 5"
  by (simp_all add: leading_def clock_def session0_def namespace_def getPrefix_def)

lemma session0_simps [simp]:
  "parent session0 = ''''" "name session0 = ''svc''" "ttl session0 = 60"
  "lease session0 = None" "leaseId session0 = ''''" "leaderKey session0 = ''''"
  "leaderRevision session0 = ''''" "isCampaigning session0 = False"
  "isObserving session0 = False" "leaderListeners session0 = 0" "errorListeners session0 = 0"
  by (simp_all add: session0_def)

lemma store_superseded_simps [simp]:
  "lease_grant store_superseded t l = Resolved ''7587''"
  "lease_revoke store_superseded t l = Resolved ()"
  "txn_commit store_superseded t ns x = Resolved \<lparr>header_revision = ''15'', succeeded = False, responses = []\<rparr>"
  "range_keys store_superseded t ns q = Resolved []"
  by (simp_all add: store_superseded_def)

lemma store_lease_gone_simps [simp]:
  "lease_revoke store_lease_gone t l = Rejected ''requested lease not found''"
  "txn_commit store_lease_gone t ns x = Resolved \<lparr>header_revision = ''15'', succeeded = False, responses = []\<rparr>"
  by (simp_all add: store_lease_gone_def)

lemma parse_int_12: "parse_int ''12'' = Some 12"
  by (simp add: parse_int_def parse_nat_def is_digit_def digit_val_def)

section \<open>Store calls leave the session alone\<close>

lemma commit_cases:
  "commit ev ns t w = (case txn_commit ev (clock w) ns t of
      Rejected m \<Rightarrow> (Raised (StoreError m), perform (Commit ns t) w)
    | Resolved r \<Rightarrow> (Returned r, perform (Commit ns t) w)
    | Pending \<Rightarrow> (Suspended, perform (Commit ns t) w))"
  by (simp add: commit_def split: reply.splits)

lemma keys_cases:
  "keys ev ns q w = (case range_keys ev (clock w) ns q of
      Rejected m \<Rightarrow> (Raised (StoreError m), perform (RangeKeys ns q) w)
    | Resolved ks \<Rightarrow> (Returned ks, perform (RangeKeys ns q) w)
    | Pending \<Rightarrow> (Suspended, perform (RangeKeys ns q) w))"
  by (simp add: keys_def split: reply.splits)

lemma revoke_cases:
  "revoke ev l w = (case lease_revoke ev (clock w) l of
      Rejected m \<Rightarrow> (Raised (StoreError m), perform (LeaseRevoke l) w)
    | Resolved u \<Rightarrow> (Returned (), perform (LeaseRevoke l) w)
    | Pending \<Rightarrow> (Suspended, perform (LeaseRevoke l) w))"
  by (simp add: revoke_def split: reply.splits)

lemma grant_cases:
  "grant ev l w = (case lease_grant ev (clock w) l of
      Rejected m \<Rightarrow> (Raised (StoreError m), perform (LeaseGrant l) w)
    | Resolved i \<Rightarrow> (Returned i, perform (LeaseGrant l) w)
    | Pending \<Rightarrow> (Suspended, perform (LeaseGrant l) w))"
  by (simp add: grant_def split: reply.splits)

lemma sess_new_lease [simp]: "sess (new_lease w) = (sess w)\<lparr>lease := Some (clock w)\<rparr>"
  by (simp add: new_lease_def Let_def)

lemma trace_new_lease [simp]:
  "trace (new_lease w) =
     trace w @ [LeaseNew (namespace (sess w)) (ttl (sess w)) (clock w), LeaseOnLost (clock w)]"
  by (simp add: new_lease_def Let_def)

lemma clock_new_lease [simp]: "clock (new_lease w) = Suc (Suc (clock w))"
  by (simp add: clock_def)

section \<open>proclaim\<close>

lemma proclaim_cases:
  "proclaim ev v w =
     (if \<not> isCampaigning (sess w) then (Raised EtcdNotLeaderError, w)
      else (case txn_commit ev (clock w) (namespace (sess w)) (proclaim_txn (sess w) v) of
          Rejected m \<Rightarrow> (Raised (StoreError m), perform (Commit (namespace (sess w)) (proclaim_txn (sess w) v)) w)
        | Resolved r \<Rightarrow>
            if succeeded r
            then (Returned (), perform (Commit (namespace (sess w)) (proclaim_txn (sess w) v)) w)
            else (Raised EtcdNotLeaderError,
                  upd (\<lambda>s. s\<lparr>leaderKey := ''''\<rparr>)
                    (perform (Commit (namespace (sess w)) (proclaim_txn (sess w) v)) w))
        | Pending \<Rightarrow> (Suspended, perform (Commit (namespace (sess w)) (proclaim_txn (sess w) v)) w)))"
  by (simp add: proclaim_def commit_cases split: reply.splits)

lemma find_map_update:
  "find (\<lambda>e. e_key e = k) (map (\<lambda>e. if e_key e = k then e\<lparr>e_value := v, e_lease := l\<rparr> else e) es)
   = map_option (\<lambda>e. e\<lparr>e_value := v, e_lease := l\<rparr>) (find (\<lambda>e. e_key e = k) es)"
  by (induction es) auto

lemma find_None_iff_key: "(find (\<lambda>e. e_key e = k) es = None) = (\<not> (\<exists>e \<in> set es. e_key e = k))"
  by (induction es) auto

lemma store_put_existing:
  assumes "find (\<lambda>e. e_key e = ns @ k) (st_entries st) = Some e"
  shows "find (\<lambda>e. e_key e = ns @ k) (st_entries (snd (store_op ns (Put k v l) st)))
         = Some (e\<lparr>e_value := v, e_lease := l\<rparr>)"
proof -
  have "\<exists>e \<in> set (st_entries st). e_key e = ns @ k"
    using assms find_None_iff_key [of "ns @ k" "st_entries st"] by auto
  then show ?thesis using assms by (simp add: Let_def find_map_update)
qed

lemma proclaim_txn_on_store:
  assumes "store_commit st (namespace s) (proclaim_txn s v) = (Resolved r, st')"
    and "succeeded r"
    and "parse_int (leaderRevision s) = Some c"
    and "c \<noteq> 0"
  shows "\<exists>e. find (\<lambda>e. e_key e = namespace s @ leaseId s) (st_entries st') = Some e
           \<and> e_value e = v \<and> e_lease e = leaseId s \<and> e_create e = c"
proof -
  let ?k = "namespace s @ leaseId s"
  have ok: "create_revision (st_entries st) ?k = c"
    using assms(1,2,3) by (auto simp: store_commit_def proclaim_txn_def Let_def split: prod.splits if_splits)
  then obtain e where e: "find (\<lambda>e. e_key e = ?k) (st_entries st) = Some e" "e_create e = c"
    using assms(4) by (auto simp: create_revision_def split: option.splits)
  have "st' = snd (store_op (namespace s) (Put (leaseId s) v (leaseId s)) st)"
    using assms(1,3) ok by (auto simp: store_commit_def proclaim_txn_def Let_def split: prod.splits)
  then show ?thesis using store_put_existing [OF e(1), of v "leaseId s"] e(2) by simp
qed

text \<open>
  C3. \<^verbatim>\<open>proclaim\<close> raises the not-leader error exactly when the session is not
  campaigning or the transaction comes back with its compare failed. In the first case
  nothing is sent and the world is unchanged; in the second the only change to the session
  is that \<open>leaderKey\<close> is cleared. When the transaction is applied \<^verbatim>\<open>proclaim\<close>
  returns, having sent one transaction: put the value under the candidate key with the
  same lease, provided the creation revision of the key is still \<open>leaderRevision\<close>. On
  the store of the specification that transaction, when applied, leaves the key with the
  new value, the same lease and the same creation revision.
\<close>

theorem proclaim_not_leader:
  "((fst (proclaim ev v w) = Raised EtcdNotLeaderError) =
      (\<not> isCampaigning (sess w) \<or>
       (\<exists>r. txn_commit ev (clock w) (namespace (sess w)) (proclaim_txn (sess w) v) = Resolved r
            \<and> \<not> succeeded r)))
   \<and> (\<not> isCampaigning (sess w) \<longrightarrow> proclaim ev v w = (Raised EtcdNotLeaderError, w))
   \<and> (\<forall>r. isCampaigning (sess w)
          \<and> txn_commit ev (clock w) (namespace (sess w)) (proclaim_txn (sess w) v) = Resolved r
        \<longrightarrow> proclaim ev v w =
            (if succeeded r
             then (Returned (), perform (Commit (namespace (sess w)) (proclaim_txn (sess w) v)) w)
             else (Raised EtcdNotLeaderError,
                   upd (\<lambda>s. s\<lparr>leaderKey := ''''\<rparr>)
                     (perform (Commit (namespace (sess w)) (proclaim_txn (sess w) v)) w))))
   \<and> proclaim_txn (sess w) v =
        \<lparr>cmp_key = leaseId (sess w), cmp_create = leaderRevision (sess w),
         then_ops = [Put (leaseId (sess w)) v (leaseId (sess w))], else_ops = []\<rparr>
   \<and> (\<forall>st st' r c. store_commit st (namespace (sess w)) (proclaim_txn (sess w) v) = (Resolved r, st')
          \<and> succeeded r \<and> parse_int (leaderRevision (sess w)) = Some c \<and> c \<noteq> 0
        \<longrightarrow> (\<exists>e. find (\<lambda>e. e_key e = namespace (sess w) @ leaseId (sess w)) (st_entries st') = Some e
                 \<and> e_value e = v \<and> e_lease e = leaseId (sess w) \<and> e_create e = c))"
proof (intro conjI allI impI)
  show "(fst (proclaim ev v w) = Raised EtcdNotLeaderError) =
      (\<not> isCampaigning (sess w) \<or>
       (\<exists>r. txn_commit ev (clock w) (namespace (sess w)) (proclaim_txn (sess w) v) = Resolved r
            \<and> \<not> succeeded r))"
    by (simp add: proclaim_cases split: reply.splits)
next
  assume "\<not> isCampaigning (sess w)"
  then show "proclaim ev v w = (Raised EtcdNotLeaderError, w)"
    by (simp add: proclaim_cases)
next
  fix r
  assume "isCampaigning (sess w)
      \<and> txn_commit ev (clock w) (namespace (sess w)) (proclaim_txn (sess w) v) = Resolved r"
  then show "proclaim ev v w =
            (if succeeded r
             then (Returned (), perform (Commit (namespace (sess w)) (proclaim_txn (sess w) v)) w)
             else (Raised EtcdNotLeaderError,
                   upd (\<lambda>s. s\<lparr>leaderKey := ''''\<rparr>)
                     (perform (Commit (namespace (sess w)) (proclaim_txn (sess w) v)) w)))"
    by (simp add: proclaim_cases)
next
  show "proclaim_txn (sess w) v =
        \<lparr>cmp_key = leaseId (sess w), cmp_create = leaderRevision (sess w),
         then_ops = [Put (leaseId (sess w)) v (leaseId (sess w))], else_ops = []\<rparr>"
    by (simp add: proclaim_txn_def)
next
  fix st st' r c
  assume "store_commit st (namespace (sess w)) (proclaim_txn (sess w) v) = (Resolved r, st')
          \<and> succeeded r \<and> parse_int (leaderRevision (sess w)) = Some c \<and> c \<noteq> 0"
  then show "\<exists>e. find (\<lambda>e. e_key e = namespace (sess w) @ leaseId (sess w)) (st_entries st') = Some e
                 \<and> e_value e = v \<and> e_lease e = leaseId (sess w) \<and> e_create e = c"
    using proclaim_txn_on_store [of st "sess w" v r st' c] by blast
qed

theorem proclaim_not_leader_witness:
  "\<not> isCampaigning (sess world0)
   \<and> proclaim store_ok ''b'' world0 = (Raised EtcdNotLeaderError, world0)
   \<and> isCampaigning (sess leading)
   \<and> fst (proclaim store_ok ''b'' leading) = Returned ()
   \<and> leaderKey (sess (snd (proclaim store_ok ''b'' leading))) = ''election/svc/7587''
   \<and> fst (proclaim store_superseded ''b'' leading) = Raised EtcdNotLeaderError
   \<and> leaderKey (sess (snd (proclaim store_superseded ''b'' leading))) = ''''
   \<and> (\<exists>e. find (\<lambda>e. e_key e = ''election/svc/7587'')
            (st_entries (snd (store_commit three_candidates ''election/svc/''
               (proclaim_txn (sess leading) ''b'')))) = Some e
          \<and> e_value e = ''b'' \<and> e_lease e = ''7587'' \<and> e_create e = 12)"
proof -
  have a: "\<not> isCampaigning (sess world0)" by simp
  have b: "isCampaigning (sess leading)" by simp
  have c: "txn_commit store_ok (clock leading) (namespace (sess leading))
             (proclaim_txn (sess leading) ''b'')
           = Resolved \<lparr>header_revision = ''12'', succeeded = True, responses = [ResponsePut]\<rparr>"
    by simp
  have d: "txn_commit store_superseded (clock leading) (namespace (sess leading))
             (proclaim_txn (sess leading) ''b'')
           = Resolved \<lparr>header_revision = ''15'', succeeded = False, responses = []\<rparr>"
    by simp
  obtain r st' where e: "store_commit three_candidates (namespace (sess leading))
      (proclaim_txn (sess leading) ''b'') = (r, st')"
    by (cases "store_commit three_candidates (namespace (sess leading))
      (proclaim_txn (sess leading) ''b'')")
  have ns: "namespace (sess leading) = ''election/svc/''"
    by simp
  have cr: "create_revision (st_entries three_candidates) ''election/svc/7587'' = 12"
    by (simp add: create_revision_def three_candidates_def)
  from e obtain r' where f: "r = Resolved r'" "succeeded r'"
    by (auto simp: store_commit_def proclaim_txn_def parse_int_12 ns cr Let_def split: prod.splits)
  have g: "parse_int (leaderRevision (sess leading)) = Some 12"
    by (simp add: parse_int_12)
  note t1 = proclaim_not_leader [of store_ok "''b''" world0]
  note t2 = proclaim_not_leader [of store_ok "''b''" leading]
  note t3 = proclaim_not_leader [of store_superseded "''b''" leading]
  have p1: "proclaim store_ok ''b'' world0 = (Raised EtcdNotLeaderError, world0)"
    using t1 a by blast
  have p2: "proclaim store_ok ''b'' leading =
      (Returned (), perform (Commit (namespace (sess leading)) (proclaim_txn (sess leading) ''b'')) leading)"
    using t2 b c by simp
  have p3: "proclaim store_superseded ''b'' leading =
      (Raised EtcdNotLeaderError, upd (\<lambda>s. s\<lparr>leaderKey := ''''\<rparr>)
         (perform (Commit (namespace (sess leading)) (proclaim_txn (sess leading) ''b'')) leading))"
    using t3 b d by simp
  have p4: "\<exists>e. find (\<lambda>e. e_key e = namespace (sess leading) @ leaseId (sess leading)) (st_entries st') = Some e
       \<and> e_value e = ''b'' \<and> e_lease e = leaseId (sess leading) \<and> e_create e = 12"
    using t2 [THEN conjunct2, THEN conjunct2, THEN conjunct2, THEN conjunct2, rule_format,
        of three_candidates r' st' 12] e f g by simp
  have st: "st' = snd (store_commit three_candidates ''election/svc/'' (proclaim_txn (sess leading) ''b''))"
    using e ns by simp
  from p4 have p5: "\<exists>e. find (\<lambda>e. e_key e = ''election/svc/7587'')
            (st_entries (snd (store_commit three_candidates ''election/svc/''
               (proclaim_txn (sess leading) ''b'')))) = Some e
          \<and> e_value e = ''b'' \<and> e_lease e = ''7587'' \<and> e_create e = 12"
    unfolding st ns by simp
  from a b p1 p2 p3 p5 show ?thesis by simp
qed

section \<open>getLeader\<close>

lemma getLeader_cases:
  "getLeader ev w =
     (case range_keys ev (clock w) (namespace (sess w))
             \<lparr>max_create_revision = None, sort_create = Ascend\<rparr> of
        Rejected m \<Rightarrow> (Raised (StoreError m),
                  perform (RangeKeys (namespace (sess w)) \<lparr>max_create_revision = None, sort_create = Ascend\<rparr>) w)
      | Resolved [] \<Rightarrow> (Raised EtcdNoLeaderError,
                  perform (RangeKeys (namespace (sess w)) \<lparr>max_create_revision = None, sort_create = Ascend\<rparr>) w)
      | Resolved (k # ks) \<Rightarrow> (Returned (getPrefix (sess w) @ k),
                  perform (RangeKeys (namespace (sess w)) \<lparr>max_create_revision = None, sort_create = Ascend\<rparr>) w)
      | Pending \<Rightarrow> (Suspended,
                  perform (RangeKeys (namespace (sess w)) \<lparr>max_create_revision = None, sort_create = Ascend\<rparr>) w))"
  by (simp add: getLeader_def keys_cases split: reply.splits list.splits)

lemma sort_key_first_least:
  assumes "sort_key f xs = y # ys"
  shows "y \<in> set xs \<and> (\<forall>x \<in> set xs. f y \<le> f x)"
proof -
  have s: "sorted (map f (y # ys))"
    using sorted_sort_key [of f xs] assms by simp
  have m: "set (y # ys) = set xs"
    using set_sort [of f xs] assms by simp
  from s have "\<forall>x \<in> set ys. f y \<le> f x" by simp
  with m show ?thesis by auto
qed

lemma store_keys_ascending:
  "store_keys es ns \<lparr>max_create_revision = None, sort_create = Ascend\<rparr> =
     Resolved (map (relative ns) (sort_key e_create (filter (under_prefix ns) es)))"
  by (simp add: store_keys_def by_create_def)

text \<open>
  C4. \<^verbatim>\<open>getLeader\<close> raises the no-leader error exactly when the range read over the
  election prefix returns no key, and otherwise returns the election prefix followed by
  the first key of the read, which asks for all keys sorted by creation revision,
  ascending. It performs that one read and nothing else, leaves the session as it was, and
  asks nothing of the session: neither a lease nor a campaign. When the read is answered
  from the store of the specification, the key returned is the one of a candidate whose
  creation revision is the lowest, and the error means that the prefix holds no key.
\<close>

theorem getLeader_no_leader:
  "((fst (getLeader ev w) = Raised EtcdNoLeaderError) =
      (range_keys ev (clock w) (namespace (sess w))
         \<lparr>max_create_revision = None, sort_create = Ascend\<rparr> = Resolved []))
   \<and> (\<forall>k ks. range_keys ev (clock w) (namespace (sess w))
                \<lparr>max_create_revision = None, sort_create = Ascend\<rparr> = Resolved (k # ks)
        \<longrightarrow> fst (getLeader ev w) = Returned (getPrefix (sess w) @ k))
   \<and> snd (getLeader ev w) =
        perform (RangeKeys (namespace (sess w)) \<lparr>max_create_revision = None, sort_create = Ascend\<rparr>) w
   \<and> sess (snd (getLeader ev w)) = sess w
   \<and> (\<forall>es. range_keys ev (clock w) (namespace (sess w))
                \<lparr>max_create_revision = None, sort_create = Ascend\<rparr>
             = store_keys es (namespace (sess w)) \<lparr>max_create_revision = None, sort_create = Ascend\<rparr>
        \<longrightarrow> (case fst (getLeader ev w) of
               Returned key \<Rightarrow>
                 (\<exists>e \<in> set es. under_prefix (namespace (sess w)) e
                    \<and> key = getPrefix (sess w) @ relative (namespace (sess w)) e
                    \<and> (\<forall>e' \<in> set es. under_prefix (namespace (sess w)) e' \<longrightarrow> e_create e \<le> e_create e'))
             | Raised err \<Rightarrow> err = EtcdNoLeaderError \<and> (\<forall>e \<in> set es. \<not> under_prefix (namespace (sess w)) e)
             | Suspended \<Rightarrow> False))"
proof (intro conjI allI impI)
  show "(fst (getLeader ev w) = Raised EtcdNoLeaderError) =
      (range_keys ev (clock w) (namespace (sess w))
         \<lparr>max_create_revision = None, sort_create = Ascend\<rparr> = Resolved [])"
    by (simp add: getLeader_cases split: reply.splits list.splits)
next
  fix k ks
  assume "range_keys ev (clock w) (namespace (sess w))
                \<lparr>max_create_revision = None, sort_create = Ascend\<rparr> = Resolved (k # ks)"
  then show "fst (getLeader ev w) = Returned (getPrefix (sess w) @ k)"
    by (simp add: getLeader_cases)
next
  show "snd (getLeader ev w) =
        perform (RangeKeys (namespace (sess w)) \<lparr>max_create_revision = None, sort_create = Ascend\<rparr>) w"
    by (simp add: getLeader_cases split: reply.splits list.splits)
  then show "sess (snd (getLeader ev w)) = sess w"
    by simp
next
  fix es
  let ?ns = "namespace (sess w)"
  let ?c = "sort_key e_create (filter (under_prefix ?ns) es)"
  assume "range_keys ev (clock w) ?ns \<lparr>max_create_revision = None, sort_create = Ascend\<rparr>
             = store_keys es ?ns \<lparr>max_create_revision = None, sort_create = Ascend\<rparr>"
  then have r: "range_keys ev (clock w) ?ns \<lparr>max_create_revision = None, sort_create = Ascend\<rparr>
             = Resolved (map (relative ?ns) ?c)"
    by (simp add: store_keys_ascending)
  show "case fst (getLeader ev w) of
               Returned key \<Rightarrow>
                 (\<exists>e \<in> set es. under_prefix ?ns e
                    \<and> key = getPrefix (sess w) @ relative ?ns e
                    \<and> (\<forall>e' \<in> set es. under_prefix ?ns e' \<longrightarrow> e_create e \<le> e_create e'))
             | Raised err \<Rightarrow> err = EtcdNoLeaderError \<and> (\<forall>e \<in> set es. \<not> under_prefix ?ns e)
             | Suspended \<Rightarrow> False"
  proof (cases ?c)
    case Nil
    then have "filter (under_prefix ?ns) es = []"
      using length_sort [of e_create "filter (under_prefix ?ns) es"] by simp
    then have "\<forall>e \<in> set es. \<not> under_prefix ?ns e"
      by (simp add: filter_empty_conv)
    with Nil r show ?thesis by (simp add: getLeader_cases)
  next
    case (Cons y ys)
    from sort_key_first_least [OF Cons]
    have "y \<in> set es" "under_prefix ?ns y" "\<forall>e' \<in> set es. under_prefix ?ns e' \<longrightarrow> e_create y \<le> e_create e'"
      by auto
    with Cons r show ?thesis by (auto simp: getLeader_cases)
  qed
qed

lemma serving_simps [simp]:
  "range_keys (serving st) t ns q = store_keys (st_entries st) ns q"
  "txn_commit (serving st) t ns x = fst (store_commit st ns x)"
  "get_string (serving st) t ns k = Resolved (map_option e_value (find (\<lambda>e. e_key e = ns @ k) (st_entries st)))"
  "watch_events (serving st) t wt = []"
  "watch_create (serving st) t ns g = Resolved ()"
  "watch_cancel (serving st) t wt = Resolved ()"
  "lease_grant (serving st) t l = Resolved ''7587''"
  "lease_revoke (serving st) t l = Resolved ()"
  by (simp_all add: serving_def store_ok_def)

lemma session0_namespace [simp]:
  "namespace session0 = ''election/svc/''" "getPrefix session0 = ''election/svc/''"
  by (simp_all add: namespace_def getPrefix_def)

lemma three_candidates_ascending:
  "store_keys (st_entries three_candidates) ''election/svc/''
     \<lparr>max_create_revision = None, sort_create = Ascend\<rparr> = Resolved [''7586'', ''7587'', ''7588'']"
  by (simp add: store_keys_def by_create_def three_candidates_def under_prefix_def relative_def)

theorem getLeader_no_leader_witness:
  "\<not> isReady (sess world0) \<and> \<not> isCampaigning (sess world0)
   \<and> fst (getLeader (serving three_candidates) world0) = Returned ''election/svc/7586''
   \<and> sess (snd (getLeader (serving three_candidates) world0)) = sess world0
   \<and> fst (getLeader store_ok world0) = Raised EtcdNoLeaderError"
proof -
  have a: "range_keys (serving three_candidates) (clock world0) (namespace (sess world0))
      \<lparr>max_create_revision = None, sort_create = Ascend\<rparr> = Resolved (''7586'' # [''7587'', ''7588''])"
    by (simp add: three_candidates_ascending)
  have b: "range_keys store_ok (clock world0) (namespace (sess world0))
      \<lparr>max_create_revision = None, sort_create = Ascend\<rparr> = Resolved []"
    by simp
  note t1 = getLeader_no_leader [of "serving three_candidates" world0]
  note t2 = getLeader_no_leader [of store_ok world0]
  have p1: "fst (getLeader (serving three_candidates) world0) = Returned (getPrefix (sess world0) @ ''7586'')"
    using t1 [THEN conjunct2, THEN conjunct1, rule_format, OF a] .
  have p2: "sess (snd (getLeader (serving three_candidates) world0)) = sess world0"
    using t1 by blast
  have p3: "fst (getLeader store_ok world0) = Raised EtcdNoLeaderError"
    using t2 [THEN conjunct1] b by simp
  from p1 p2 p3 show ?thesis by (simp add: isReady_def)
qed

section \<open>resign\<close>

lemma resign_cases:
  "resign ev w =
     (if \<not> isCampaigning (sess w) then (Returned (), w)
      else (case txn_commit ev (clock w) (namespace (sess w)) (resign_txn (sess w)) of
          Rejected m \<Rightarrow> (Raised (StoreError m), perform (Commit (namespace (sess w)) (resign_txn (sess w))) w)
        | Resolved r \<Rightarrow>
            if succeeded r
            then (Returned (), upd clear_candidacy (perform (Commit (namespace (sess w)) (resign_txn (sess w))) w))
            else (case lease (sess w) of
                None \<Rightarrow> (Returned (), perform (Commit (namespace (sess w)) (resign_txn (sess w))) w)
              | Some l \<Rightarrow> (case lease_revoke ev (Suc (clock w)) l of
                    Rejected m \<Rightarrow> (Raised (StoreError m),
                       perform (LeaseRevoke l) (perform (Commit (namespace (sess w)) (resign_txn (sess w))) w))
                  | Resolved u \<Rightarrow> (Returned (),
                       upd clear_candidacy (upd (\<lambda>s. s\<lparr>leaseId := ''''\<rparr>)
                         (new_lease (perform (LeaseRevoke l)
                            (perform (Commit (namespace (sess w)) (resign_txn (sess w))) w)))))
                  | Pending \<Rightarrow> (Suspended,
                       perform (LeaseRevoke l) (perform (Commit (namespace (sess w)) (resign_txn (sess w))) w))))
        | Pending \<Rightarrow> (Suspended, perform (Commit (namespace (sess w)) (resign_txn (sess w))) w)))"
  by (simp add: resign_def commit_cases revoke_cases split: reply.splits option.splits)

text \<open>
  C2, as amended. A call of \<^verbatim>\<open>resign\<close> on a campaigning session whose conditional delete
  is answered, and either applied or followed by a fallback that runs to its end (a lease
  reference is held and its revocation is answered), returns with \<open>leaderKey\<close> and
  \<open>leaderRevision\<close> empty and \<open>isCampaigning\<close> false.
\<close>

theorem resign_clears:
  assumes "isCampaigning (sess w)"
    and "txn_commit ev (clock w) (namespace (sess w)) (resign_txn (sess w)) = Resolved r"
    and "succeeded r \<or> (\<exists>l. lease (sess w) = Some l \<and> lease_revoke ev (Suc (clock w)) l = Resolved ())"
  shows "fst (resign ev w) = Returned ()
    \<and> leaderKey (sess (snd (resign ev w))) = ''''
    \<and> leaderRevision (sess (snd (resign ev w))) = ''''
    \<and> \<not> isCampaigning (sess (snd (resign ev w)))"
  using assms by (auto simp: resign_cases clear_candidacy_def)

theorem resign_clears_witness:
  "isCampaigning (sess leading)
   \<and> fst (resign store_ok leading) = Returned ()
   \<and> \<not> isCampaigning (sess (snd (resign store_ok leading)))
   \<and> fst (resign store_superseded leading) = Returned ()
   \<and> leaderKey (sess (snd (resign store_superseded leading))) = ''''
   \<and> leaderRevision (sess (snd (resign store_superseded leading))) = ''''
   \<and> \<not> isCampaigning (sess (snd (resign store_superseded leading)))"
proof -
  have a: "isCampaigning (sess leading)" by simp
  have b: "txn_commit store_ok (clock leading) (namespace (sess leading)) (resign_txn (sess leading))
      = Resolved \<lparr>header_revision = ''12'', succeeded = True, responses = [ResponsePut]\<rparr>"
    by simp
  have c: "txn_commit store_superseded (clock leading) (namespace (sess leading)) (resign_txn (sess leading))
      = Resolved \<lparr>header_revision = ''15'', succeeded = False, responses = []\<rparr>"
    by simp
  have d: "succeeded \<lparr>header_revision = ''15'', succeeded = False, responses = []\<rparr>
      \<or> (\<exists>l. lease (sess leading) = Some l \<and> lease_revoke store_superseded (Suc (clock leading)) l = Resolved ())"
    by simp
  have e: "succeeded \<lparr>header_revision = ''12'', succeeded = True, responses = [ResponsePut]\<rparr>
      \<or> (\<exists>l. lease (sess leading) = Some l \<and> lease_revoke store_ok (Suc (clock leading)) l = Resolved ())"
    by simp
  from resign_clears [OF a b e] resign_clears [OF a c d] a show ?thesis by simp
qed

text \<open>
  The claim as stated fails when the fallback runs and the revocation is refused, as it is
  for a lease that has expired: \<^verbatim>\<open>resign\<close> raises the store's error and the session
  is still campaigning, with its leader key and revision.
\<close>

theorem resign_revoke_refused_counterexample:
  "isCampaigning (sess leading)
   \<and> fst (resign store_lease_gone leading) = Raised (StoreError ''requested lease not found'')
   \<and> isCampaigning (sess (snd (resign store_lease_gone leading)))
   \<and> leaderKey (sess (snd (resign store_lease_gone leading))) = ''election/svc/7587''
   \<and> leaderRevision (sess (snd (resign store_lease_gone leading))) = ''12''"
  by (simp add: resign_cases)

section \<open>What each step does to the session\<close>

lemma await_keeps:
  assumes "sess (snd r) = s" and "\<And>v w1. sess w1 = s \<Longrightarrow> sess (snd (k v w1)) = s"
  shows "sess (snd (await r k)) = s"
proof (cases r)
  case (Pair o1 w1)
  with assms show ?thesis by (cases o1) simp_all
qed

lemma try_finally_keeps:
  assumes "sess (snd (body w)) = s" and "\<And>w1. sess w1 = s \<Longrightarrow> sess (snd (fin w1)) = s"
  shows "sess (snd (try_finally body fin w)) = s"
proof (cases "body w")
  case (Pair o1 w1)
  then have s1: "sess w1 = s" using assms(1) by simp
  obtain o2 w2 where f: "fin w1 = (o2, w2)" by (cases "fin w1")
  then have "sess w2 = s" using assms(2) [OF s1] by simp
  with Pair f s1 show ?thesis
    by (cases o1; cases o2) (simp_all add: try_finally_def)
qed

lemma sess_call [simp]: "sess (snd (call a reply w)) = sess w"
  by (simp add: call_world)

lemma sess_store_calls [simp]:
  "sess (snd (grant ev l w)) = sess w"
  "sess (snd (revoke ev l w)) = sess w"
  "sess (snd (commit ev ns t w)) = sess w"
  "sess (snd (keys ev ns q w)) = sess w"
  "sess (snd (get_as_string ev ns k w)) = sess w"
  "sess (snd (create_watch ev ns tg w)) = sess w"
  "sess (snd (cancel ev wt w)) = sess w"
  by (simp_all add: grant_def revoke_def commit_def keys_def get_as_string_def
      create_watch_def cancel_def)

lemma sess_await_delete [simp]: "sess (snd (await_delete ev wt w)) = sess w"
  by (simp add: await_delete_world)

lemma sess_await_put [simp]: "sess (snd (await_put ev wt w)) = sess w"
  by (simp add: await_put_def split: option.splits sum.splits)

lemma sess_waitForDelete [simp]: "sess (snd (waitForDelete ev ns k w)) = sess w"
  unfolding waitForDelete_def
  by (rule await_keeps, simp, rule try_finally_keeps) simp_all

lemma sess_wait_each [simp]: "sess (snd (wait_each ev ns ks w)) = sess w"
proof (induction ks arbitrary: w)
  case Nil
  show ?case by simp
next
  case (Cons k ks)
  obtain r w1 where g: "get_as_string ev ns k w = (r, w1)"
    by (cases "get_as_string ev ns k w")
  then have s1: "sess w1 = sess w"
    using sess_store_calls(5) [of ev ns k w] by simp
  obtain r2 w2 where d: "waitForDelete ev ns k w1 = (r2, w2)"
    by (cases "waitForDelete ev ns k w1")
  then have s2: "sess w2 = sess w"
    using sess_waitForDelete [of ev ns k w1] s1 by simp
  show ?case
    using g d s1 s2 Cons [of w1] Cons [of w2]
    by (cases r; cases r2) (auto split: option.splits)
qed

lemma sess_waitForDeletes [simp]: "sess (snd (waitForDeletes ev ns ks w)) = sess w"
  by (simp add: waitForDeletes_def run_tasks_wait_each)

lemma sess_waitForElected [simp]: "sess (snd (waitForElected ev w)) = sess w"
  unfolding waitForElected_def Let_def
  by (rule await_keeps) simp_all

lemma proclaim_frame:
  "sess (snd (proclaim ev v w)) = sess w
   \<or> sess (snd (proclaim ev v w)) = (sess w)\<lparr>leaderKey := ''''\<rparr>"
  by (simp add: proclaim_cases split: reply.splits)

lemma initialize_cases:
  "initialize ev w =
     (if lease (sess w) = None then
        (case lease_grant ev (Suc (Suc (clock w))) (clock w) of
           Rejected m \<Rightarrow> (Raised (StoreError m), perform (LeaseGrant (clock w)) (new_lease w))
         | Resolved i \<Rightarrow> (Returned (), upd (\<lambda>s. s\<lparr>leaseId := i\<rparr>) (perform (LeaseGrant (clock w)) (new_lease w)))
         | Pending \<Rightarrow> (Suspended, perform (LeaseGrant (clock w)) (new_lease w)))
      else (Returned (), w))"
  by (simp add: initialize_def grant_cases split: reply.splits)

lemma initialize_lease: "lease (sess (snd (initialize ev w))) \<noteq> None"
  by (simp add: initialize_cases split: reply.splits)

lemma initialize_candidacy:
  "leaderKey (sess (snd (initialize ev w))) = leaderKey (sess w)
   \<and> leaderRevision (sess (snd (initialize ev w))) = leaderRevision (sess w)
   \<and> isCampaigning (sess (snd (initialize ev w))) = isCampaigning (sess w)
   \<and> isObserving (sess (snd (initialize ev w))) = isObserving (sess w)"
  by (simp add: initialize_cases split: reply.splits)

lemma sess_drop_lease:
  "sess (drop_lease w) = (case lease (sess w) of
      None \<Rightarrow> sess w | Some l \<Rightarrow> (sess w)\<lparr>lease := None, leaseId := ''''\<rparr>)"
  by (simp add: drop_lease_def split: option.splits)

lemma sess_onLeaseLost:
  "sess (onLeaseLost ev w) = sess (snd (initialize ev (drop_lease w)))"
  by (simp add: onLeaseLost_def split: prod.splits outcome.splits)

lemma onLeaseLost_lease: "lease (sess (onLeaseLost ev w)) \<noteq> None"
  by (simp add: sess_onLeaseLost initialize_lease)

lemma resign_returned_clears:
  assumes "isCampaigning (sess w)" and "fst (resign ev w) = Returned ()"
    and "lease (sess w) \<noteq> None"
  shows "\<not> isCampaigning (sess (snd (resign ev w)))
    \<and> leaderKey (sess (snd (resign ev w))) = ''''
    \<and> leaderRevision (sess (snd (resign ev w))) = ''''"
  using assms
  by (auto simp: resign_cases clear_candidacy_def split: reply.splits if_splits)

lemma resign_returned_not_campaigning:
  assumes "fst (resign ev w) = Returned ()" and "lease (sess w) \<noteq> None"
  shows "\<not> isCampaigning (sess (snd (resign ev w)))"
proof (cases "isCampaigning (sess w)")
  case True
  from resign_returned_clears [OF True assms] show ?thesis by simp
next
  case False
  then show ?thesis by (simp add: resign_cases)
qed

lemma proclaim_keeps_campaigning:
  "isCampaigning (sess (snd (proclaim ev v w))) = isCampaigning (sess w)"
  using proclaim_frame [of ev v w] by auto

section \<open>Lease loss\<close>

text \<open>
  C10, as amended. The handler of a lost lease changes only the lease reference (to null)
  and \<open>leaseId\<close> (to the empty string) before it starts the re-initialization, and the
  handler as a whole leaves \<open>leaderKey\<close>, \<open>leaderRevision\<close> and \<open>isCampaigning\<close> as
  they were, so that a campaigning session still reports \<open>isCampaigning\<close>. A later
  \<^verbatim>\<open>proclaim\<close>, failed or not, leaves \<open>isCampaigning\<close> as it is (its failure clears
  \<open>leaderKey\<close> only); a later \<^verbatim>\<open>resign\<close> that returns clears it.
\<close>

theorem onLeaseLost_frame:
  "sess (drop_lease w) = (case lease (sess w) of
      None \<Rightarrow> sess w | Some l \<Rightarrow> (sess w)\<lparr>lease := None, leaseId := ''''\<rparr>)
   \<and> leaderKey (sess (onLeaseLost ev w)) = leaderKey (sess w)
   \<and> leaderRevision (sess (onLeaseLost ev w)) = leaderRevision (sess w)
   \<and> isCampaigning (sess (onLeaseLost ev w)) = isCampaigning (sess w)
   \<and> isCampaigning (sess (snd (proclaim ev' v (onLeaseLost ev w)))) = isCampaigning (sess w)
   \<and> (fst (resign ev' (onLeaseLost ev w)) = Returned ()
        \<longrightarrow> \<not> isCampaigning (sess (snd (resign ev' (onLeaseLost ev w)))))"
proof (intro conjI impI)
  show "sess (drop_lease w) = (case lease (sess w) of
      None \<Rightarrow> sess w | Some l \<Rightarrow> (sess w)\<lparr>lease := None, leaseId := ''''\<rparr>)"
    by (rule sess_drop_lease)
  have d: "leaderKey (sess (drop_lease w)) = leaderKey (sess w)
      \<and> leaderRevision (sess (drop_lease w)) = leaderRevision (sess w)
      \<and> isCampaigning (sess (drop_lease w)) = isCampaigning (sess w)"
    by (simp add: sess_drop_lease split: option.splits)
  show "leaderKey (sess (onLeaseLost ev w)) = leaderKey (sess w)"
    using d initialize_candidacy [of ev "drop_lease w"] by (simp add: sess_onLeaseLost)
  show "leaderRevision (sess (onLeaseLost ev w)) = leaderRevision (sess w)"
    using d initialize_candidacy [of ev "drop_lease w"] by (simp add: sess_onLeaseLost)
  show c: "isCampaigning (sess (onLeaseLost ev w)) = isCampaigning (sess w)"
    using d initialize_candidacy [of ev "drop_lease w"] by (simp add: sess_onLeaseLost)
  show "isCampaigning (sess (snd (proclaim ev' v (onLeaseLost ev w)))) = isCampaigning (sess w)"
    using c by (simp add: proclaim_keeps_campaigning)
next
  assume "fst (resign ev' (onLeaseLost ev w)) = Returned ()"
  then show "\<not> isCampaigning (sess (snd (resign ev' (onLeaseLost ev w))))"
    by (rule resign_returned_not_campaigning) (rule onLeaseLost_lease)
qed

lemma onLeaseLost_leading:
  "sess (onLeaseLost store_ok leading) = (sess leading)\<lparr>lease := Some 6, leaseId := ''7587''\<rparr>"
  by (simp add: sess_onLeaseLost sess_drop_lease initialize_cases drop_lease_def)

theorem onLeaseLost_frame_witness:
  "isCampaigning (sess leading)
   \<and> isCampaigning (sess (onLeaseLost store_ok leading))
   \<and> leaderKey (sess (onLeaseLost store_ok leading)) = ''election/svc/7587''
   \<and> fst (resign store_ok (onLeaseLost store_ok leading)) = Returned ()
   \<and> \<not> isCampaigning (sess (snd (resign store_ok (onLeaseLost store_ok leading))))"
proof -
  have r: "fst (resign store_ok (onLeaseLost store_ok leading)) = Returned ()"
    by (simp add: resign_cases onLeaseLost_leading)
  from onLeaseLost_frame [of leading store_ok store_ok "[]"] r show ?thesis by simp
qed

text \<open>
  The claim as stated fails on its last clause: after the lease loss a failing
  \<^verbatim>\<open>proclaim\<close> raises the not-leader error and the session still reports
  \<open>isCampaigning\<close>.
\<close>

theorem proclaim_failure_keeps_campaigning_counterexample:
  "isCampaigning (sess (onLeaseLost store_ok leading))
   \<and> fst (proclaim store_superseded ''b'' (onLeaseLost store_ok leading)) = Raised EtcdNotLeaderError
   \<and> isCampaigning (sess (snd (proclaim store_superseded ''b'' (onLeaseLost store_ok leading))))
   \<and> leaderKey (sess (snd (proclaim store_superseded ''b'' (onLeaseLost store_ok leading)))) = ''''"
  by (simp add: proclaim_cases onLeaseLost_leading)

section \<open>What campaign does to the session\<close>

lemma await_inv:
  assumes "P (sess (snd r))" and "\<And>v w1. P (sess w1) \<Longrightarrow> P (sess (snd (k v w1)))"
  shows "P (sess (snd (await r k)))"
proof (cases r)
  case (Pair o1 w1)
  with assms show ?thesis by (cases o1) simp_all
qed

lemma snd_await_raise: "snd (await r (\<lambda>u w2. (x, w2))) = snd r"
proof (cases r)
  case (Pair o1 w1)
  then show ?thesis by (cases o1) simp_all
qed

lemma catch_resign_inv:
  assumes "P (sess (snd (body w)))" and "\<And>w1. P (sess w1) \<Longrightarrow> P (sess (snd (resign ev w1)))"
  shows "P (sess (snd (catch_resign ev body w)))"
proof (cases "body w")
  case (Pair o1 w1)
  with assms show ?thesis
    by (cases o1) (simp_all add: catch_resign_def snd_await_raise)
qed

lemma catch_resign_raised:
  assumes "body w = (Raised e, wx)"
  shows "snd (catch_resign ev body w) = snd (resign ev wx)"
    and "fst (resign ev wx) = Returned () \<Longrightarrow> catch_resign ev body w = (Raised e, snd (resign ev wx))"
proof -
  show "snd (catch_resign ev body w) = snd (resign ev wx)"
    using assms by (simp add: catch_resign_def snd_await_raise)
  assume r: "fst (resign ev wx) = Returned ()"
  obtain o2 w2 where p: "resign ev wx = (o2, w2)" by (cases "resign ev wx")
  with r have "o2 = Returned ()" by simp
  with p assms show "catch_resign ev body w = (Raised e, snd (resign ev wx))"
    by (simp add: catch_resign_def)
qed

lemma catch_resign_returned:
  assumes "catch_resign ev body w = (Returned (), w4)"
  shows "body w = (Returned (), w4)"
proof (cases "body w")
  case (Pair o1 w1)
  show ?thesis
  proof (cases o1)
    case (Raised e)
    obtain o2 w2 where "resign ev w1 = (o2, w2)" by (cases "resign ev w1")
    with Pair Raised assms show ?thesis
      by (cases o2) (simp_all add: catch_resign_def)
  qed (use Pair assms in \<open>simp_all add: catch_resign_def\<close>)
qed

lemma record_candidacy_fields [simp]:
  "lease (record_candidacy r s) = lease s"
  "leaseId (record_candidacy r s) = leaseId s"
  "isCampaigning (record_candidacy r s) = True"
  "isObserving (record_candidacy r s) = isObserving s"
  by (simp_all add: record_candidacy_def)

lemma existing_candidacy_fields:
  "lease (sess (snd (existing_candidacy ev v result w))) = lease (sess w)
   \<and> leaseId (sess (snd (existing_candidacy ev v result w))) = leaseId (sess w)
   \<and> isCampaigning (sess (snd (existing_candidacy ev v result w))) = isCampaigning (sess w)
   \<and> isObserving (sess (snd (existing_candidacy ev v result w))) = isObserving (sess w)"
proof (cases "first_kv (responses result)")
  case None
  then show ?thesis by (simp add: existing_candidacy_def)
next
  case (Some k)
  let ?w1 = "upd (\<lambda>s. s\<lparr>leaderRevision := kv_create_revision k\<rparr>) w"
  from proclaim_frame [of ev v ?w1] Some show ?thesis
    by (auto simp: existing_candidacy_def Let_def)
qed

lemma resign_trace:
  assumes "isCampaigning (sess w)"
  shows "\<exists>rest. trace (snd (resign ev w)) =
           trace w @ Commit (namespace (sess w)) (resign_txn (sess w)) # rest"
  using assms by (simp add: resign_cases split: reply.splits option.splits)

lemma resign_keeps_lease_without_id:
  "lease_without_id (sess w) \<Longrightarrow> lease_without_id (sess (snd (resign ev w)))"
  by (auto simp: resign_cases lease_without_id_def clear_candidacy_def split: reply.splits)

lemma lease_without_id_cong:
  "lease s' = lease s \<Longrightarrow> leaseId s' = leaseId s \<Longrightarrow> lease_without_id s' = lease_without_id s"
  by (simp add: lease_without_id_def)

lemma campaign_keeps_lease_without_id:
  assumes "lease_without_id (sess w)"
  shows "lease_without_id (sess (snd (campaign ev v w)))"
proof -
  have i: "initialize ev w = (Returned (), w)"
    using assms by (auto simp: initialize_cases lease_without_id_def)
  have r: "\<And>x. lease_without_id (sess x) \<Longrightarrow> lease_without_id (sess (snd (resign ev x)))"
    by (rule resign_keeps_lease_without_id)
  have e: "\<And>result x. lease_without_id (sess x)
      \<Longrightarrow> lease_without_id (sess (snd (existing_candidacy ev v result x)))"
    using existing_candidacy_fields by (simp add: lease_without_id_def)
  have c: "\<And>result x. lease_without_id (sess x)
      \<Longrightarrow> lease_without_id (sess (upd (record_candidacy result) x))"
    by (simp add: lease_without_id_def)
  have k2: "\<And>x. lease_without_id (sess x)
      \<Longrightarrow> lease_without_id (sess (snd (catch_resign ev (waitForElected ev) x)))"
    by (rule catch_resign_inv) (simp_all add: r)
  have k1: "lease_without_id (sess (snd
      (await (if \<not> succeeded result
              then catch_resign ev (existing_candidacy ev v result) (upd (record_candidacy result) x)
              else (Returned (), upd (record_candidacy result) x))
         (\<lambda>u w4. catch_resign ev (waitForElected ev) w4))))"
    if x: "lease_without_id (sess x)" for result x
  proof (rule await_inv)
    show "lease_without_id (sess (snd (if \<not> succeeded result
              then catch_resign ev (existing_candidacy ev v result) (upd (record_candidacy result) x)
              else (Returned (), upd (record_candidacy result) x))))"
    proof (cases "succeeded result")
      case True
      then show ?thesis using c [OF x] by simp
    next
      case False
      have "lease_without_id (sess (snd (catch_resign ev (existing_candidacy ev v result)
          (upd (record_candidacy result) x))))"
        by (rule catch_resign_inv) (simp_all only: e c x r)
      with False show ?thesis by simp
    qed
  next
    fix u :: unit and w1 :: world
    assume "lease_without_id (sess w1)"
    then show "lease_without_id (sess (snd (catch_resign ev (waitForElected ev) w1)))"
      by (rule k2)
  qed
  have "lease_without_id (sess (snd
      (await (commit ev (namespace (sess w)) (campaign_txn (sess w) v) w) (\<lambda>result w2.
       await (if \<not> succeeded result
              then catch_resign ev (existing_candidacy ev v result) (upd (record_candidacy result) w2)
              else (Returned (), upd (record_candidacy result) w2))
         (\<lambda>u w4. catch_resign ev (waitForElected ev) w4)))))"
    by (rule await_inv) (simp_all only: sess_store_calls assms k1)
  then show ?thesis
    by (simp add: campaign_def i Let_def)
qed

section \<open>The observer and the session\<close>

lemma observe_body_sess:
  "sess (snd (observe_body ev w)) =
     (sess w)\<lparr>isObserving := (fst (observe_body ev w) = Suspended)\<rparr>"
proof -
  let ?body = "\<lambda>w0.
          let w1 = upd (\<lambda>s. s\<lparr>isObserving := True\<rparr>) w0 in
          await (keys ev (namespace (sess w1))
                   \<lparr>max_create_revision = None, sort_create = Ascend\<rparr> w1) (\<lambda>result w2.
          await (if length result = 0
                 then await (create_watch ev (parent (sess w2)) (WatchPrefix (getPrefix (sess w2))) w2)
                        (\<lambda>wt w3. try_finally (await_put ev wt) (cancel ev wt) w3)
                 else (Returned (getPrefix (sess w2) @ result ! 0), w2)) (\<lambda>leader w4.
          waitForDelete ev (parent (sess w4)) leader (perform (EmitLeader leader) w4)))"
  let ?s = "(sess w)\<lparr>isObserving := True\<rparr>"
  have b: "sess (snd (?body w)) = ?s"
    unfolding Let_def
    apply (rule await_keeps)
     apply simp
    apply (rule await_keeps)
     apply (simp add: await_keeps try_finally_keeps)
    apply simp
    done
  obtain o1 w1 where p: "?body w = (o1, w1)" by (cases "?body w")
  with b have s1: "sess w1 = ?s" by simp
  have "observe_body ev w = (case o1 of Suspended \<Rightarrow> (Suspended, w1)
      | r \<Rightarrow> (r, upd (\<lambda>s. s\<lparr>isObserving := False\<rparr>) w1))"
    using p unfolding observe_body_def try_finally_def by (cases o1) simp_all
  with s1 show ?thesis by (cases o1) simp_all
qed

lemma observe_body_fields:
  "lease (sess (snd (observe_body ev w))) = lease (sess w)"
  "leaseId (sess (snd (observe_body ev w))) = leaseId (sess w)"
  by (simp_all add: observe_body_sess)

lemma observe_loop_keeps_lease_without_id:
  "(\<forall>r w'. lease_without_id (sess w) \<longrightarrow> observe n ev w = Some (r, w') \<longrightarrow> lease_without_id (sess w'))
   \<and> (\<forall>w'. lease_without_id (sess w) \<longrightarrow> tryObserve n ev w = Some w' \<longrightarrow> lease_without_id (sess w'))"
proof (induction n arbitrary: w)
  case 0
  show ?case by simp
next
  case (Suc n)
  from Suc have IHo: "\<And>x r x'. lease_without_id (sess x) \<Longrightarrow> observe n ev x = Some (r, x')
      \<Longrightarrow> lease_without_id (sess x')"
    by blast
  from Suc have IHt: "\<And>x x'. lease_without_id (sess x) \<Longrightarrow> tryObserve n ev x = Some x'
      \<Longrightarrow> lease_without_id (sess x')"
    by blast
  have o: "lease_without_id (sess w')"
    if P: "lease_without_id (sess w)" and ob: "observe (Suc n) ev w = Some (r, w')" for r w'
  proof (cases "isObserving (sess w)")
    case True
    with ob P show ?thesis by simp
  next
    case False
    obtain o1 w1 where p: "observe_body ev w = (o1, w1)" by (cases "observe_body ev w")
    have P1: "lease_without_id (sess w1)"
      using observe_body_fields [of ev w] p P by (simp add: lease_without_id_def)
    show ?thesis
    proof (cases o1)
      case (Returned u)
      show ?thesis
      proof (cases "leaderListeners (sess w1) > 0")
        case True
        with ob p False Returned have "tryObserve n ev w1 = Some w'" by auto
        with P1 show ?thesis by (rule IHt)
      next
        case no: False
        with ob p False Returned have "w' = w1" by simp
        with P1 show ?thesis by simp
      qed
    next
      case (Raised e)
      with ob p False have "w' = w1" by simp
      with P1 show ?thesis by simp
    next
      case Suspended
      with ob p False have "w' = w1" by simp
      with P1 show ?thesis by simp
    qed
  qed
  have t: "lease_without_id (sess w')"
    if P: "lease_without_id (sess w)" and tr: "tryObserve (Suc n) ev w = Some w'" for w'
  proof (cases "observe n ev w")
    case None
    with tr show ?thesis by simp
  next
    case (Some p)
    obtain o1 w1 where p: "p = (o1, w1)" by (cases p)
    from IHo [OF P] Some p have P1: "lease_without_id (sess w1)" by simp
    show ?thesis
    proof (cases o1)
      case (Returned u)
      with tr Some p have "w' = w1" by simp
      with P1 show ?thesis by simp
    next
      case R: (Raised e)
      obtain r2 w2 where em: "emit_error e w1 = (r2, w2)" by (cases "emit_error e w1")
      then have "w2 = perform (EmitError e) w1"
        using snd_emit_error [of e w1] by simp
      with P1 have P2: "lease_without_id (sess w2)" by simp
      show ?thesis
      proof (cases r2)
        case (Returned u)
        with tr Some p R em have "tryObserve n ev w2 = Some w'" by simp
        with P2 show ?thesis by (rule IHt)
      next
        case (Raised e')
        with tr Some p R em have "w' = w2" by simp
        with P2 show ?thesis by simp
      next
        case Suspended
        with tr Some p R em have "w' = w2" by simp
        with P2 show ?thesis by simp
      qed
    next
      case Suspended
      with tr Some p have "w' = w1" by simp
      with P1 show ?thesis by simp
    qed
  qed
  from o t show ?case by blast
qed

lemma initialize_noop: "lease (sess w) \<noteq> None \<Longrightarrow> initialize ev w = (Returned (), w)"
  by (auto simp: initialize_cases)

lemma sess_getLeader [simp]: "sess (snd (getLeader ev w)) = sess w"
  unfolding getLeader_def by (rule await_keeps) simp_all

lemma run_operation_keeps_lease_without_id:
  assumes P: "lease_without_id (sess w)" and run: "run_operation n ev op w = Some w'"
  shows "lease_without_id (sess w')"
proof (cases op)
  case Initialize
  from P have "lease (sess w) \<noteq> None" by (simp add: lease_without_id_def)
  then have "initialize ev w = (Returned (), w)" by (rule initialize_noop)
  with run Initialize have "w' = w" by simp
  with P show ?thesis by simp
next
  case (Campaign v)
  with run have "w' = snd (campaign ev v w)" by simp
  with P show ?thesis by (simp add: campaign_keeps_lease_without_id)
next
  case (Proclaim v)
  with run have w': "w' = snd (proclaim ev v w)" by simp
  have "lease (sess (snd (proclaim ev v w))) = lease (sess w)
      \<and> leaseId (sess (snd (proclaim ev v w))) = leaseId (sess w)"
    using proclaim_frame [of ev v w] by (elim disjE) simp_all
  with P w' show ?thesis by (simp add: lease_without_id_def)
next
  case Resign
  with run have "w' = snd (resign ev w)" by simp
  with P show ?thesis by (simp add: resign_keeps_lease_without_id)
next
  case GetLeader
  with run have "w' = snd (getLeader ev w)" by simp
  with P show ?thesis by simp
next
  case (NewListener event)
  let ?x = "upd (add_listener event) w"
  have Px: "lease_without_id (sess ?x)"
    using P by (simp add: lease_without_id_def add_listener_def)
  show ?thesis
  proof (cases "shouldObserve event")
    case True
    with run NewListener have "tryObserve n ev ?x = Some w'"
      by (simp add: on_listener_def onNewListener_def)
    with Px observe_loop_keeps_lease_without_id [of ?x n ev] show ?thesis by blast
  next
    case False
    with run NewListener have "w' = ?x"
      by (simp add: on_listener_def onNewListener_def)
    with Px show ?thesis by simp
  qed
qed

text \<open>
  C9, as amended. When \<^verbatim>\<open>resign\<close> takes its fallback and the revocation succeeds (the
  conditional delete is answered but not applied, a lease reference is held, and the store
  revokes that lease), it returns with \<open>leaseId\<close> empty and a new, non-null lease
  reference, so \<^verbatim>\<open>isReady\<close> is false. From then on \<^verbatim>\<open>initialize\<close> is a no-op on
  any store: it returns the world it was given, so it sends no grant. No operation of the
  session (initialize, campaign, proclaim, resign, getLeader, the registration of a
  listener and the observer it starts) leaves that condition, whatever the store answers.
  The lease-lost notification does: it drops the reference, and the re-initialization
  records the id the store grants.
\<close>

theorem resign_fallback_blocks_initialize:
  assumes "isCampaigning (sess w)" and "lease (sess w) = Some l"
    and "txn_commit ev (clock w) (namespace (sess w)) (resign_txn (sess w)) = Resolved r"
    and "\<not> succeeded r"
    and "lease_revoke ev (Suc (clock w)) l = Resolved ()"
  shows "fst (resign ev w) = Returned ()
    \<and> leaseId (sess (snd (resign ev w))) = ''''
    \<and> lease (sess (snd (resign ev w))) = Some (Suc (Suc (clock w)))
    \<and> \<not> isReady (sess (snd (resign ev w)))
    \<and> lease_without_id (sess (snd (resign ev w)))
    \<and> (\<forall>ev'. initialize ev' (snd (resign ev w)) = (Returned (), snd (resign ev w)))
    \<and> (\<forall>n ev' op x x'. lease_without_id (sess x) \<and> run_operation n ev' op x = Some x'
          \<longrightarrow> lease_without_id (sess x') \<and> \<not> isReady (sess x'))
    \<and> (\<forall>ev' i. lease_grant ev' (clock w + 7) (clock w + 5) = Resolved i
          \<longrightarrow> leaseId (sess (onLeaseLost ev' (snd (resign ev w)))) = i
            \<and> isReady (sess (onLeaseLost ev' (snd (resign ev w)))) = (i \<noteq> ''''))"
proof -
  let ?c = "Commit (namespace (sess w)) (resign_txn (sess w))"
  let ?w' = "upd clear_candidacy (upd (\<lambda>s. s\<lparr>leaseId := ''''\<rparr>)
      (new_lease (perform (LeaseRevoke l) (perform ?c w))))"
  have res: "resign ev w = (Returned (), ?w')"
    using assms by (simp add: resign_cases)
  have lease': "lease (sess ?w') = Some (Suc (Suc (clock w)))"
    by (simp add: clear_candidacy_def)
  have id': "leaseId (sess ?w') = ''''"
    by (simp add: clear_candidacy_def)
  have clock': "clock ?w' = clock w + 4"
    by simp
  have a: "\<forall>ev'. initialize ev' ?w' = (Returned (), ?w')"
    using lease' by (simp add: initialize_noop)
  have b: "\<forall>n ev' op x x'. lease_without_id (sess x) \<and> run_operation n ev' op x = Some x'
          \<longrightarrow> lease_without_id (sess x') \<and> \<not> isReady (sess x')"
  proof (intro allI impI)
    fix n ev' op x x'
    assume "lease_without_id (sess x) \<and> run_operation n ev' op x = Some x'"
    then have "lease_without_id (sess x')"
      using run_operation_keeps_lease_without_id by blast
    then show "lease_without_id (sess x') \<and> \<not> isReady (sess x')"
      by (simp add: lease_without_id_def isReady_def)
  qed
  have c: "\<forall>ev' i. lease_grant ev' (clock w + 7) (clock w + 5) = Resolved i
          \<longrightarrow> leaseId (sess (onLeaseLost ev' ?w')) = i
            \<and> isReady (sess (onLeaseLost ev' ?w')) = (i \<noteq> '''')"
  proof (intro allI impI)
    fix ev' :: env and i
    assume g: "lease_grant ev' (clock w + 7) (clock w + 5) = Resolved i"
    have d: "drop_lease ?w' = upd (\<lambda>s. s\<lparr>lease := None, leaseId := ''''\<rparr>)
        (perform (LeaseRemoveAllListeners (Suc (Suc (clock w)))) ?w')"
      using lease' by (simp add: drop_lease_def)
    have "leaseId (sess (snd (initialize ev' (drop_lease ?w')))) = i"
      unfolding d using g by (simp add: initialize_cases eval_nat_numeral)
    then show "leaseId (sess (onLeaseLost ev' ?w')) = i
            \<and> isReady (sess (onLeaseLost ev' ?w')) = (i \<noteq> '''')"
      by (simp add: sess_onLeaseLost isReady_def)
  qed
  have e: "\<not> isReady (sess ?w')"
    using id' by (simp add: isReady_def)
  have f: "lease_without_id (sess ?w')"
    using lease' id' by (simp add: lease_without_id_def)
  show ?thesis
    unfolding res fst_conv snd_conv
    by (intro conjI) (rule refl id' lease' e f a b c)+
qed

theorem resign_fallback_blocks_initialize_witness:
  "isCampaigning (sess leading) \<and> lease (sess leading) = Some 0
   \<and> fst (resign store_superseded leading) = Returned ()
   \<and> leaseId (sess (snd (resign store_superseded leading))) = ''''
   \<and> lease (sess (snd (resign store_superseded leading))) = Some 7
   \<and> \<not> isReady (sess (snd (resign store_superseded leading)))
   \<and> initialize store_ok (snd (resign store_superseded leading))
       = (Returned (), snd (resign store_superseded leading))
   \<and> \<not> isReady (sess (snd (campaign store_ok ''a'' (snd (resign store_superseded leading)))))
   \<and> leaseId (sess (onLeaseLost store_ok (snd (resign store_superseded leading)))) = ''7587''
   \<and> isReady (sess (onLeaseLost store_ok (snd (resign store_superseded leading))))"
proof -
  have a: "isCampaigning (sess leading)" by simp
  have b: "lease (sess leading) = Some 0" by simp
  have c: "txn_commit store_superseded (clock leading) (namespace (sess leading))
      (resign_txn (sess leading)) = Resolved \<lparr>header_revision = ''15'', succeeded = False, responses = []\<rparr>"
    by simp
  have d: "\<not> succeeded \<lparr>header_revision = ''15'', succeeded = False, responses = []\<rparr>"
    by simp
  have e: "lease_revoke store_superseded (Suc (clock leading)) 0 = Resolved ()" by simp
  note t = resign_fallback_blocks_initialize [OF a b c d e]
  let ?w' = "snd (resign store_superseded leading)"
  have t1: "fst (resign store_superseded leading) = Returned ()"
    and t2: "leaseId (sess ?w') = ''''"
    and t3: "lease (sess ?w') = Some (Suc (Suc (clock leading)))"
    and t4: "\<not> isReady (sess ?w')"
    and t5: "lease_without_id (sess ?w')"
    and t6: "\<forall>ev'. initialize ev' ?w' = (Returned (), ?w')"
    and t7: "\<forall>n ev' op x x'. lease_without_id (sess x) \<and> run_operation n ev' op x = Some x'
          \<longrightarrow> lease_without_id (sess x') \<and> \<not> isReady (sess x')"
    and t8: "\<forall>ev' i. lease_grant ev' (clock leading + 7) (clock leading + 5) = Resolved i
          \<longrightarrow> leaseId (sess (onLeaseLost ev' ?w')) = i
            \<and> isReady (sess (onLeaseLost ev' ?w')) = (i \<noteq> '''')"
    using t by blast+
  have r: "run_operation 0 store_ok (Campaign ''a'') ?w' = Some (snd (campaign store_ok ''a'' ?w'))"
    by simp
  from t7 t5 r have u7: "\<not> isReady (sess (snd (campaign store_ok ''a'' ?w')))"
    by blast
  have g: "lease_grant store_ok (clock leading + 7) (clock leading + 5) = Resolved ''7587''"
    by simp
  from t8 g have u8: "leaseId (sess (onLeaseLost store_ok ?w')) = ''7587''
      \<and> isReady (sess (onLeaseLost store_ok ?w'))"
    by auto
  from t3 have u3: "lease (sess ?w') = Some 7" by simp
  from a b t1 t2 u3 t4 t6 u7 u8 show ?thesis by blast
qed

text \<open>
  The claim as stated fails when the fallback is taken and the store refuses the
  revocation, as it does for a lease that has expired: the conditional delete is answered
  and not applied, a lease reference is held, and \<^verbatim>\<open>resign\<close> raises the store's error
  before it replaces the lease. The session keeps the old lease reference and its id, and
  \<^verbatim>\<open>isReady\<close> is still true.
\<close>

theorem resign_fallback_refused_counterexample:
  "isCampaigning (sess leading) \<and> lease (sess leading) = Some 0
   \<and> txn_commit store_lease_gone (clock leading) (namespace (sess leading))
        (resign_txn (sess leading))
       = Resolved \<lparr>header_revision = ''15'', succeeded = False, responses = []\<rparr>
   \<and> fst (resign store_lease_gone leading) = Raised (StoreError ''requested lease not found'')
   \<and> trace (snd (resign store_lease_gone leading)) =
       trace leading @ [Commit ''election/svc/'' (resign_txn (sess leading)), LeaseRevoke 0]
   \<and> leaseId (sess (snd (resign store_lease_gone leading))) = ''7587''
   \<and> lease (sess (snd (resign store_lease_gone leading))) = Some 0
   \<and> isReady (sess (snd (resign store_lease_gone leading)))"
  by (simp add: resign_cases isReady_def)

section \<open>campaign\<close>

text \<open>
  The campaign transaction itself is sent outside both \<^verbatim>\<open>try\<close> blocks: when the store
  rejects it, \<^verbatim>\<open>campaign\<close> raises that error at once, \<^verbatim>\<open>resign\<close> is not called and
  the session is as \<^verbatim>\<open>initialize\<close> left it.
\<close>

lemma campaign_transaction_rejected:
  assumes "initialize ev w = (Returned (), w1)"
    and "txn_commit ev (clock w1) (namespace (sess w1)) (campaign_txn (sess w1) v) = Rejected m"
  shows "campaign ev v w =
     (Raised (StoreError m), perform (Commit (namespace (sess w1)) (campaign_txn (sess w1) v)) w1)"
  using assms by (simp add: campaign_def commit_cases)

lemma catch_resign_success:
  "body w = (Returned (), w4) \<Longrightarrow> catch_resign ev body w = (Returned (), w4)"
  by (simp add: catch_resign_def)

lemma catch_resign_failed:
  assumes "body w = (Raised e, wx)"
  shows "await (catch_resign ev body w) k = catch_resign ev body w"
proof -
  obtain o2 w2 where p: "resign ev wx = (o2, w2)" by (cases "resign ev wx")
  with assms show ?thesis
    by (cases o2) (simp_all add: catch_resign_def)
qed

lemma waitForElected_cases:
  "waitForElected ev w =
     (case range_keys ev (clock w) (namespace (sess w))
             \<lparr>max_create_revision = Some (bignumber_minus_one (leaderRevision (sess w))),
              sort_create = Descend\<rparr> of
        Rejected m \<Rightarrow> (Raised (StoreError m),
           perform (RangeKeys (namespace (sess w))
             \<lparr>max_create_revision = Some (bignumber_minus_one (leaderRevision (sess w))),
              sort_create = Descend\<rparr>) w)
      | Resolved ks \<Rightarrow>
          if ks = [] then (Returned (),
             perform (RangeKeys (namespace (sess w))
               \<lparr>max_create_revision = Some (bignumber_minus_one (leaderRevision (sess w))),
                sort_create = Descend\<rparr>) w)
          else waitForDeletes ev (namespace (sess w)) ks
             (perform (RangeKeys (namespace (sess w))
               \<lparr>max_create_revision = Some (bignumber_minus_one (leaderRevision (sess w))),
                sort_create = Descend\<rparr>) w)
      | Pending \<Rightarrow> (Suspended,
           perform (RangeKeys (namespace (sess w))
             \<lparr>max_create_revision = Some (bignumber_minus_one (leaderRevision (sess w))),
              sort_create = Descend\<rparr>) w))"
  by (simp add: waitForElected_def keys_cases Let_def split: reply.splits)

lemma store_wait_fails_simps [simp]:
  "lease_grant store_wait_fails t l = Resolved ''7587''"
  "lease_revoke store_wait_fails t l = Resolved ()"
  "txn_commit store_wait_fails t ns x = Resolved \<lparr>header_revision = ''12'', succeeded = True, responses = [ResponsePut]\<rparr>"
  "range_keys store_wait_fails t ns q = Rejected ''range read: unavailable''"
  by (simp_all add: store_wait_fails_def)

lemma store_partitioned_simps [simp]:
  "lease_grant store_partitioned t l = Resolved ''7587''"
  "txn_commit store_partitioned t ns x = (if t < 4
        then Resolved \<lparr>header_revision = ''12'', succeeded = True, responses = [ResponsePut]\<rparr>
        else Rejected ''transaction: unavailable'')"
  "range_keys store_partitioned t ns q = Rejected ''range read: unavailable''"
  by (simp_all add: store_partitioned_def)

lemma campaign_reaches_leading: "campaign store_ok ''a'' world0 = (Returned (), leading)"
  by (simp add: campaign_def initialize_cases commit_cases waitForElected_cases
      record_candidacy_def campaign_txn_def namespace_def getPrefix_def leading_def world0_def
      catch_resign_def new_lease_def upd_def perform_def clock_def session0_def
      bignumber_minus_one_def parse_int_def parse_nat_def is_digit_def digit_val_def show_int_def
      show_nat.simps digit_char_def Let_def)

text \<open>
  C1, as amended. Once the lease is acquired and the campaign transaction answered, a
  failure of the else branch (reading the existing key, or proclaiming again) or of the
  wait for the turn makes \<^verbatim>\<open>campaign\<close> call \<^verbatim>\<open>resign\<close>: the world \<^verbatim>\<open>campaign\<close>
  leaves is the one \<^verbatim>\<open>resign\<close> leaves, and the conditional delete of \<^verbatim>\<open>resign\<close> is
  the first action after the failure. When that \<^verbatim>\<open>resign\<close> returns, \<^verbatim>\<open>campaign\<close>
  raises the original error and the session is not campaigning, with \<open>leaderKey\<close> and
  \<open>leaderRevision\<close> empty.
\<close>

theorem campaign_failure_resigns:
  assumes init: "initialize ev w = (Returned (), w1)"
    and txn: "txn_commit ev (clock w1) (namespace (sess w1)) (campaign_txn (sess w1) v) = Resolved result"
    and w3: "w3 = upd (record_candidacy result)
               (perform (Commit (namespace (sess w1)) (campaign_txn (sess w1) v)) w1)"
    and fail: "(\<not> succeeded result \<and> existing_candidacy ev v result w3 = (Raised e, wx))
       \<or> ((if succeeded result then (Returned (), w3) else existing_candidacy ev v result w3)
             = (Returned (), w4)
           \<and> waitForElected ev w4 = (Raised e, wx))"
  shows "snd (campaign ev v w) = snd (resign ev wx)
    \<and> (\<exists>rest. trace (snd (campaign ev v w)) =
           trace wx @ Commit (namespace (sess wx)) (resign_txn (sess wx)) # rest)
    \<and> (fst (resign ev wx) = Returned ()
         \<longrightarrow> campaign ev v w = (Raised e, snd (resign ev wx))
           \<and> \<not> isCampaigning (sess (snd (campaign ev v w)))
           \<and> leaderKey (sess (snd (campaign ev v w))) = ''''
           \<and> leaderRevision (sess (snd (campaign ev v w))) = '''')"
proof -
  let ?x = "if \<not> succeeded result
            then catch_resign ev (existing_candidacy ev v result) w3
            else (Returned (), w3)"
  have c: "campaign ev v w = await ?x (\<lambda>u w4. catch_resign ev (waitForElected ev) w4)"
    using init txn w3 by (simp add: campaign_def commit_cases Let_def)
  have l1: "lease (sess w1) \<noteq> None"
    using initialize_lease [of ev w] init by simp
  have l3: "lease (sess w3) \<noteq> None" and c3: "isCampaigning (sess w3)"
    using l1 w3 by simp_all
  have ex: "lease (sess (snd (existing_candidacy ev v result w3))) \<noteq> None
      \<and> isCampaigning (sess (snd (existing_candidacy ev v result w3)))"
    using existing_candidacy_fields [of ev v result w3] l3 c3 by simp
  from fail have
    body: "\<exists>body x. body x = (Raised e, wx) \<and> campaign ev v w = catch_resign ev body x"
    and lx: "lease (sess wx) \<noteq> None" and cx: "isCampaigning (sess wx)"
  proof -
    show "\<exists>body x. body x = (Raised e, wx) \<and> campaign ev v w = catch_resign ev body x"
      using fail
    proof (elim disjE conjE)
      assume a: "\<not> succeeded result" "existing_candidacy ev v result w3 = (Raised e, wx)"
      then have "campaign ev v w = catch_resign ev (existing_candidacy ev v result) w3"
        using c catch_resign_failed [where body = "existing_candidacy ev v result" and w = w3, OF a(2)]
        by simp
      with a(2) show ?thesis by blast
    next
      assume a: "(if succeeded result then (Returned (), w3)
                  else existing_candidacy ev v result w3) = (Returned (), w4)"
        "waitForElected ev w4 = (Raised e, wx)"
      have "?x = (Returned (), w4)"
        using a(1) by (cases "succeeded result") (simp_all add: catch_resign_success)
      then have "campaign ev v w = catch_resign ev (waitForElected ev) w4"
        using c by simp
      with a(2) show ?thesis by blast
    qed
    show "lease (sess wx) \<noteq> None"
      using fail
    proof (elim disjE conjE)
      assume "existing_candidacy ev v result w3 = (Raised e, wx)"
      with ex show ?thesis by simp
    next
      assume a: "(if succeeded result then (Returned (), w3)
                  else existing_candidacy ev v result w3) = (Returned (), w4)"
        "waitForElected ev w4 = (Raised e, wx)"
      from a(1) ex l3 have "lease (sess w4) \<noteq> None"
        by (cases "succeeded result") auto
      with a(2) sess_waitForElected [of ev w4] show ?thesis by simp
    qed
    show "isCampaigning (sess wx)"
      using fail
    proof (elim disjE conjE)
      assume "existing_candidacy ev v result w3 = (Raised e, wx)"
      with ex show ?thesis by simp
    next
      assume a: "(if succeeded result then (Returned (), w3)
                  else existing_candidacy ev v result w3) = (Returned (), w4)"
        "waitForElected ev w4 = (Raised e, wx)"
      from a(1) ex c3 have "isCampaigning (sess w4)"
        by (cases "succeeded result") auto
      with a(2) sess_waitForElected [of ev w4] show ?thesis by simp
    qed
  qed
  from body obtain body x where b: "body x = (Raised e, wx)"
    and cc: "campaign ev v w = catch_resign ev body x"
    by blast
  have s: "snd (campaign ev v w) = snd (resign ev wx)"
    using cc catch_resign_raised(1) [where body = body and w = x, OF b] by simp
  have t: "\<exists>rest. trace (snd (campaign ev v w)) =
           trace wx @ Commit (namespace (sess wx)) (resign_txn (sess wx)) # rest"
    unfolding s by (rule resign_trace [OF cx])
  have r: "campaign ev v w = (Raised e, snd (resign ev wx))
           \<and> \<not> isCampaigning (sess (snd (campaign ev v w)))
           \<and> leaderKey (sess (snd (campaign ev v w))) = ''''
           \<and> leaderRevision (sess (snd (campaign ev v w))) = ''''"
    if ok: "fst (resign ev wx) = Returned ()"
    unfolding s
    using cc catch_resign_raised(2) [where body = body and w = x, OF b ok]
      resign_returned_clears [OF cx ok lx]
    by simp
  from s t r show ?thesis by blast
qed

theorem campaign_failure_resigns_witness:
  "fst (initialize store_wait_fails world0) = Returned ()
   \<and> fst (campaign store_wait_fails ''a'' world0) = Raised (StoreError ''range read: unavailable'')
   \<and> \<not> isCampaigning (sess (snd (campaign store_wait_fails ''a'' world0)))
   \<and> leaderKey (sess (snd (campaign store_wait_fails ''a'' world0))) = ''''
   \<and> leaderRevision (sess (snd (campaign store_wait_fails ''a'' world0))) = ''''"
proof -
  let ?ev = store_wait_fails
  define w1 where "w1 = snd (initialize ?ev world0)"
  define result where
    "result = \<lparr>header_revision = ''12'', succeeded = True, responses = [ResponsePut]\<rparr>"
  define w3 where "w3 = upd (record_candidacy result)
      (perform (Commit (namespace (sess w1)) (campaign_txn (sess w1) ''a'')) w1)"
  define wx where "wx = snd (waitForElected ?ev w3)"
  have i0: "fst (initialize ?ev world0) = Returned ()"
    by (simp add: initialize_cases)
  then have init: "initialize ?ev world0 = (Returned (), w1)"
    unfolding w1_def by (cases "initialize ?ev world0") simp
  have txn: "txn_commit ?ev (clock w1) (namespace (sess w1)) (campaign_txn (sess w1) ''a'') = Resolved result"
    by (simp add: result_def)
  have w3: "w3 = upd (record_candidacy result)
      (perform (Commit (namespace (sess w1)) (campaign_txn (sess w1) ''a'')) w1)"
    by (rule w3_def)
  have wait: "waitForElected ?ev w3 = (Raised (StoreError ''range read: unavailable''), wx)"
    unfolding wx_def by (simp add: waitForElected_cases)
  have fail: "(\<not> succeeded result
        \<and> existing_candidacy ?ev ''a'' result w3 = (Raised (StoreError ''range read: unavailable''), wx))
     \<or> ((if succeeded result then (Returned (), w3) else existing_candidacy ?ev ''a'' result w3)
           = (Returned (), w3)
         \<and> waitForElected ?ev w3 = (Raised (StoreError ''range read: unavailable''), wx))"
    using wait by (simp add: result_def)
  have cx: "isCampaigning (sess wx)"
    unfolding wx_def w3_def by simp
  have ok: "fst (resign ?ev wx) = Returned ()"
    using cx by (simp add: resign_cases)
  from campaign_failure_resigns [OF init txn w3 fail] ok
  have c: "campaign ?ev ''a'' world0 =
      (Raised (StoreError ''range read: unavailable''), snd (resign ?ev wx))"
    and r: "\<not> isCampaigning (sess (snd (campaign ?ev ''a'' world0)))
      \<and> leaderKey (sess (snd (campaign ?ev ''a'' world0))) = ''''
      \<and> leaderRevision (sess (snd (campaign ?ev ''a'' world0))) = ''''"
    by blast+
  from c have "fst (campaign ?ev ''a'' world0) = Raised (StoreError ''range read: unavailable'')"
    by simp
  with i0 r show ?thesis by blast
qed

text \<open>
  The claim as stated fails when the clean-up fails too. On a store that becomes
  unreachable after the campaign transaction, the wait for the turn fails on its range
  read, \<^verbatim>\<open>campaign\<close> calls \<^verbatim>\<open>resign\<close>, the conditional delete of \<^verbatim>\<open>resign\<close> fails,
  and \<^verbatim>\<open>campaign\<close> raises that second error with the session still campaigning.
\<close>

theorem campaign_failed_cleanup_counterexample:
  "fst (campaign store_partitioned ''a'' world0) = Raised (StoreError ''transaction: unavailable'')
   \<and> isCampaigning (sess (snd (campaign store_partitioned ''a'' world0)))
   \<and> leaderKey (sess (snd (campaign store_partitioned ''a'' world0))) = ''election/svc/7587''
   \<and> lease (sess (snd (campaign store_partitioned ''a'' world0))) = Some 0
   \<and> trace (snd (campaign store_partitioned ''a'' world0)) =
       [LeaseNew ''election/svc/'' 60 0, LeaseOnLost 0, LeaseGrant 0,
        Commit ''election/svc/'' \<lparr>cmp_key = ''7587'', cmp_create = ''0'',
          then_ops = [Put ''7587'' ''a'' ''7587''], else_ops = [Get ''7587'']\<rparr>,
        RangeKeys ''election/svc/'' \<lparr>max_create_revision = Some ''11'', sort_create = Descend\<rparr>,
        Commit ''election/svc/'' \<lparr>cmp_key = ''7587'', cmp_create = ''12'',
          then_ops = [Delete ''7587''], else_ops = []\<rparr>]"
  by (simp add: campaign_def initialize_cases commit_cases waitForElected_cases catch_resign_def
      resign_cases record_candidacy_def campaign_txn_def resign_txn_def namespace_def getPrefix_def
      bignumber_minus_one_def parse_int_def parse_nat_def is_digit_def digit_val_def show_int_def
      show_nat.simps digit_char_def Let_def)

section \<open>Revisions as decimal strings\<close>

lemma digit_char_val: "d < 10 \<Longrightarrow> digit_val (digit_char d) = d \<and> is_digit (digit_char d)"
proof -
  assume "d < 10"
  then have "d \<in> {0, 1, 2, 3, 4, 5, 6, 7, 8, 9}" by auto
  then show ?thesis
    by (auto simp: digit_val_def digit_char_def is_digit_def)
qed

lemma show_nat_digits: "list_all is_digit (show_nat n) \<and> show_nat n \<noteq> []"
proof (induction n rule: show_nat.induct)
  case (1 n)
  show ?case
  proof (cases "n < 10")
    case True
    then show ?thesis using digit_char_val [of n] by (simp add: show_nat.simps)
  next
    case False
    then show ?thesis using 1 digit_char_val [of "n mod 10"]
      by (subst (1 2) show_nat.simps) simp
  qed
qed

lemma foldl_digits_show_nat:
  "foldl (\<lambda>a c. 10 * a + digit_val c) 0 (show_nat n) = n"
proof (induction n rule: show_nat.induct)
  case (1 n)
  show ?case
  proof (cases "n < 10")
    case True
    then show ?thesis using digit_char_val [of n] by (simp add: show_nat.simps)
  next
    case False
    then show ?thesis using 1 digit_char_val [of "n mod 10"]
      by (subst show_nat.simps) simp
  qed
qed

lemma parse_nat_show_nat: "parse_nat (show_nat n) = Some n"
  by (simp add: parse_nat_def show_nat_digits foldl_digits_show_nat)

lemma hd_show_nat: "hd (show_nat n) \<noteq> CHR ''-''"
proof -
  have "is_digit (hd (show_nat n))"
    using show_nat_digits [of n] by (cases "show_nat n") auto
  then show ?thesis by (auto simp: is_digit_def)
qed

lemma parse_int_show_int: "parse_int (show_int i) = Some i"
  using hd_show_nat [of "nat i"] show_nat_digits [of "nat i"]
  by (auto simp: parse_int_def show_int_def parse_nat_show_nat)

lemma bignumber_minus_one_exact: "bignumber_minus_one (show_int i) = show_int (i - 1)"
  by (simp add: bignumber_minus_one_def parse_int_show_int)

section \<open>The wait for the turn\<close>

lemma store_keys_bounded:
  "store_keys es ns \<lparr>max_create_revision = Some (show_int m), sort_create = Descend\<rparr> =
     Resolved (map (relative ns) (rev (sort_key e_create (filter (\<lambda>e. under_prefix ns e \<and> e_create e \<le> m) es))))"
  by (simp add: store_keys_def by_create_def parse_int_show_int)

text \<open>
  C5. With \<open>leaderRevision\<close> the decimal string of a revision \<open>r\<close> of the 64-bit range,
  the wait for the turn sends one range read, bounded by \<^verbatim>\<open>maxCreateRevision\<close> equal to
  the decimal string of \<open>r - 1\<close> exactly (also beyond \<open>2 ^ 53\<close>, where a floating-point
  number would round) and sorted by creation revision, descending. Answered from the store
  of the specification, the read selects exactly the keys under the election prefix whose
  creation revision is strictly less than \<open>r\<close>, latest first; when there is none the
  session is elected at once, with no further action, and otherwise it waits for the
  deletion of those keys.
\<close>

theorem waitForElected_selects_earlier:
  assumes "leaderRevision (sess w) = show_int r" and "0 < r" and "r < 2 ^ 63"
    and "\<forall>q. range_keys ev (clock w) (namespace (sess w)) q = store_keys es (namespace (sess w)) q"
  shows "bignumber_minus_one (leaderRevision (sess w)) = show_int (r - 1)
    \<and> waitForElected ev w =
        (let ns = namespace (sess w);
             q = \<lparr>max_create_revision = Some (show_int (r - 1)), sort_create = Descend\<rparr>;
             earlier = rev (sort_key e_create (filter (\<lambda>e. under_prefix ns e \<and> e_create e < r) es));
             w1 = perform (RangeKeys ns q) w
         in if earlier = [] then (Returned (), w1)
            else waitForDeletes ev ns (map (relative ns) earlier) w1)"
proof -
  let ?ns = "namespace (sess w)"
  have b: "bignumber_minus_one (leaderRevision (sess w)) = show_int (r - 1)"
    using assms(1) by (simp add: bignumber_minus_one_exact)
  have f: "filter (\<lambda>e. under_prefix ?ns e \<and> e_create e \<le> r - 1) es
         = filter (\<lambda>e. under_prefix ?ns e \<and> e_create e < r) es"
    by (rule filter_cong) auto
  have k: "range_keys ev (clock w) ?ns
             \<lparr>max_create_revision = Some (show_int (r - 1)), sort_create = Descend\<rparr>
         = Resolved (map (relative ?ns)
             (rev (sort_key e_create (filter (\<lambda>e. under_prefix ?ns e \<and> e_create e < r) es))))"
    using assms(4) by (simp add: store_keys_bounded f)
  have "waitForElected ev w =
        (let ns = namespace (sess w);
             q = \<lparr>max_create_revision = Some (show_int (r - 1)), sort_create = Descend\<rparr>;
             earlier = rev (sort_key e_create (filter (\<lambda>e. under_prefix ns e \<and> e_create e < r) es));
             w1 = perform (RangeKeys ns q) w
         in if earlier = [] then (Returned (), w1)
            else waitForDeletes ev ns (map (relative ns) earlier) w1)"
    unfolding waitForElected_cases b k Let_def by simp
  with b show ?thesis by blast
qed

lemma three_candidates_earlier:
  "sort_key e_create
     (filter (\<lambda>e. under_prefix ''election/svc/'' e \<and> e_create e < 12) (st_entries three_candidates))
   = [\<lparr>e_key = ''election/svc/7586'', e_value = ''x'', e_create = 9, e_lease = ''7586''\<rparr>]"
  by (simp add: three_candidates_def under_prefix_def)

lemma show_int_12: "show_int 12 = ''12''"
  by (simp add: show_int_def show_nat.simps digit_char_def)

lemma show_int_beyond_double: "show_int 9007199254740994 = ''9007199254740994''"
  by (simp add: show_int_def show_nat.simps digit_char_def)

lemma show_int_beyond_double_pred: "show_int 9007199254740993 = ''9007199254740993''"
  by (simp add: show_int_def show_nat.simps digit_char_def)

theorem waitForElected_selects_earlier_witness:
  "leaderRevision (sess leading) = show_int 12
   \<and> waitForElected (serving three_candidates) leading =
       waitForDeletes (serving three_candidates) ''election/svc/'' [''7586'']
         (perform (RangeKeys ''election/svc/''
            \<lparr>max_create_revision = Some ''11'', sort_create = Descend\<rparr>) leading)
   \<and> bignumber_minus_one
        (leaderRevision (sess (upd (\<lambda>s. s\<lparr>leaderRevision := ''9007199254740994''\<rparr>) leading)))
       = ''9007199254740993''"
proof -
  have a: "leaderRevision (sess leading) = show_int 12"
    by (simp add: show_int_12)
  have b: "(0::int) < 12" and c: "(12::int) < 2 ^ 63" by simp_all
  have d: "\<forall>q. range_keys (serving three_candidates) (clock leading) (namespace (sess leading)) q
      = store_keys (st_entries three_candidates) (namespace (sess leading)) q"
    by simp
  have s11: "show_int 11 = ''11''"
    by (simp add: show_int_def show_nat.simps digit_char_def)
  from waitForElected_selects_earlier [OF a b c d]
  have p1: "waitForElected (serving three_candidates) leading =
       waitForDeletes (serving three_candidates) ''election/svc/'' [''7586'']
         (perform (RangeKeys ''election/svc/''
            \<lparr>max_create_revision = Some ''11'', sort_create = Descend\<rparr>) leading)"
    by (simp add: three_candidates_earlier s11 relative_def Let_def)
  let ?w = "upd (\<lambda>s. s\<lparr>leaderRevision := ''9007199254740994''\<rparr>) leading"
  have a2: "leaderRevision (sess ?w) = show_int 9007199254740994"
    by (simp add: show_int_beyond_double)
  have b2: "(0::int) < 9007199254740994" and c2: "(9007199254740994::int) < 2 ^ 63" by simp_all
  have d2: "\<forall>q. range_keys (serving three_candidates) (clock ?w) (namespace (sess ?w)) q
      = store_keys (st_entries three_candidates) (namespace (sess ?w)) q"
    by simp
  from waitForElected_selects_earlier [OF a2 b2 c2 d2]
  have p2: "bignumber_minus_one (leaderRevision (sess ?w)) = ''9007199254740993''"
    by (simp add: show_int_beyond_double_pred)
  from a p1 p2 show ?thesis by blast
qed

section \<open>The observation loop\<close>

lemma resign_observing: "isObserving (sess (snd (resign ev w))) = isObserving (sess w)"
  by (simp add: resign_cases clear_candidacy_def split: reply.splits option.splits)

lemma campaign_observing: "isObserving (sess (snd (campaign ev v w))) = isObserving (sess w)"
proof -
  define b where "b = isObserving (sess w)"
  let ?P = "\<lambda>s. isObserving s = b"
  have r: "\<And>x. ?P (sess x) \<Longrightarrow> ?P (sess (snd (resign ev x)))"
    by (simp add: resign_observing)
  have e: "\<And>result x. ?P (sess x) \<Longrightarrow> ?P (sess (snd (existing_candidacy ev v result x)))"
    using existing_candidacy_fields by simp
  have c: "\<And>result x. ?P (sess x) \<Longrightarrow> ?P (sess (upd (record_candidacy result) x))"
    by simp
  have k2: "\<And>x. ?P (sess x) \<Longrightarrow> ?P (sess (snd (catch_resign ev (waitForElected ev) x)))"
    by (rule catch_resign_inv [where P = ?P]) (simp_all add: r)
  have k1: "?P (sess (snd
      (await (if \<not> succeeded result
              then catch_resign ev (existing_candidacy ev v result) (upd (record_candidacy result) x)
              else (Returned (), upd (record_candidacy result) x))
         (\<lambda>u w4. catch_resign ev (waitForElected ev) w4))))"
    if x: "?P (sess x)" for result x
  proof (rule await_inv [where P = ?P])
    show "?P (sess (snd (if \<not> succeeded result
              then catch_resign ev (existing_candidacy ev v result) (upd (record_candidacy result) x)
              else (Returned (), upd (record_candidacy result) x))))"
    proof (cases "succeeded result")
      case True
      then show ?thesis using c [OF x] by simp
    next
      case False
      have "?P (sess (snd (catch_resign ev (existing_candidacy ev v result)
          (upd (record_candidacy result) x))))"
        by (rule catch_resign_inv [where P = ?P]) (simp_all only: e c x r)
      with False show ?thesis by simp
    qed
  next
    fix u :: unit and w1 :: world
    assume "?P (sess w1)"
    then show "?P (sess (snd (catch_resign ev (waitForElected ev) w1)))"
      by (rule k2)
  qed
  have k0: "?P (sess (snd
      (await (commit ev (namespace (sess x)) (campaign_txn (sess x) v) x) (\<lambda>result w2.
       await (if \<not> succeeded result
              then catch_resign ev (existing_candidacy ev v result) (upd (record_candidacy result) w2)
              else (Returned (), upd (record_candidacy result) w2))
         (\<lambda>u w4. catch_resign ev (waitForElected ev) w4)))))"
    if x: "?P (sess x)" for x
    by (rule await_inv [where P = ?P]) (simp_all only: sess_store_calls x k1)
  have i: "?P (sess (snd (initialize ev w)))"
    using initialize_candidacy [of ev w] by (simp add: b_def)
  have "?P (sess (snd (campaign ev v w)))"
    unfolding campaign_def Let_def
    by (rule await_inv [where P = ?P]) (simp_all only: i k0)
  then show ?thesis by (simp add: b_def)
qed

lemma tryObserve_while_observing:
  assumes "isObserving (sess w)" and "tryObserve n ev w = Some w'"
  shows "w' = w"
proof (cases n)
  case 0
  with assms show ?thesis by simp
next
  case (Suc m)
  show ?thesis
  proof (cases m)
    case 0
    with Suc assms show ?thesis by simp
  next
    case (Suc k)
    with \<open>n = Suc m\<close> assms show ?thesis by simp
  qed
qed

lemma onLeaseLost_observing: "isObserving (sess (onLeaseLost ev w)) = isObserving (sess w)"
  using initialize_candidacy [of ev "drop_lease w"]
  by (simp add: sess_onLeaseLost sess_drop_lease split: option.splits)

lemma run_operation_keeps_observing:
  assumes P: "isObserving (sess w)" and run: "run_operation n ev op w = Some w'"
  shows "isObserving (sess w')"
proof (cases op)
  case Initialize
  with run have "w' = snd (initialize ev w)" by simp
  with P initialize_candidacy [of ev w] show ?thesis by simp
next
  case (Campaign v)
  with run have "w' = snd (campaign ev v w)" by simp
  with P show ?thesis by (simp add: campaign_observing)
next
  case (Proclaim v)
  with run have w': "w' = snd (proclaim ev v w)" by simp
  have "isObserving (sess (snd (proclaim ev v w))) = isObserving (sess w)"
    using proclaim_frame [of ev v w] by (elim disjE) simp_all
  with P w' show ?thesis by simp
next
  case Resign
  with run have "w' = snd (resign ev w)" by simp
  with P show ?thesis by (simp add: resign_observing)
next
  case GetLeader
  with run have "w' = snd (getLeader ev w)" by simp
  with P show ?thesis by simp
next
  case (NewListener event)
  let ?x = "upd (add_listener event) w"
  have Px: "isObserving (sess ?x)"
    using P by (simp add: add_listener_def)
  show ?thesis
  proof (cases "shouldObserve event")
    case True
    with run NewListener have "tryObserve n ev ?x = Some w'"
      by (simp add: on_listener_def onNewListener_def)
    with Px have "w' = ?x" by (rule tryObserve_while_observing)
    with Px show ?thesis by simp
  next
    case False
    with run NewListener have "w' = ?x"
      by (simp add: on_listener_def onNewListener_def)
    with Px show ?thesis by simp
  qed
qed

lemma observe_body_first_await:
  assumes "range_keys ev (clock w) (namespace (sess w))
             \<lparr>max_create_revision = None, sort_create = Ascend\<rparr> = Pending"
  shows "observe_body ev w =
     (Suspended, perform (RangeKeys (namespace (sess w))
                            \<lparr>max_create_revision = None, sort_create = Ascend\<rparr>)
                   (upd (\<lambda>s. s\<lparr>isObserving := True\<rparr>) w))"
  using assms
  by (simp add: observe_body_def try_finally_def keys_cases Let_def namespace_def getPrefix_def)

lemma observe_raised_not_observing:
  assumes "observe n ev w = Some (Raised e, w1)"
  shows "\<not> isObserving (sess w1)"
proof (cases n)
  case 0
  with assms show ?thesis by simp
next
  case (Suc m)
  show ?thesis
  proof (cases "isObserving (sess w)")
    case True
    with assms Suc show ?thesis by simp
  next
    case False
    obtain o1 x where p: "observe_body ev w = (o1, x)" by (cases "observe_body ev w")
    have r: "o1 = Raised e \<and> x = w1"
      using assms Suc False p
      by (cases o1) (auto split: if_splits)
    from observe_body_sess [of ev w] p r show ?thesis by simp
  qed
qed

text \<open>
  C8. When \<open>isObserving\<close> is already true, \<^verbatim>\<open>observe\<close> returns at once and the world
  is unchanged, so a second \<^verbatim>\<open>tryObserve\<close> starts nothing. Otherwise one turn of the
  loop body runs, and the session it leaves differs from the one it found only in
  \<open>isObserving\<close>, which is true wherever the body is parked (at any of its awaits, the
  store requests and the watches alike) and false on both exits of the body, the return
  and the error. The flag is raised before the first await: when the first read has no
  answer yet, the body is parked with the flag up and only that read sent. While the body
  is parked, a call of \<^verbatim>\<open>observe\<close> returns at once, and no operation of the session,
  nor the handler of a lost lease, lowers the flag. The restarts come after the flag is
  lowered: the one of \<^verbatim>\<open>observe\<close> starts from the world the returned body left, and
  the handler of \<^verbatim>\<open>tryObserve\<close> runs in the world an \<^verbatim>\<open>observe\<close> that raised left,
  where \<open>isObserving\<close> is false; it emits the error and then starts the loop again,
  unless no listener for errors is registered, in which case the emit throws and nothing
  is started.
\<close>

theorem observe_one_loop:
  "(isObserving (sess w)
      \<longrightarrow> observe (Suc n) ev w = Some (Returned (), w) \<and> tryObserve (Suc (Suc n)) ev w = Some w)
   \<and> sess (snd (observe_body ev w)) =
        (sess w)\<lparr>isObserving := (fst (observe_body ev w) = Suspended)\<rparr>
   \<and> (range_keys ev (clock w) (namespace (sess w))
         \<lparr>max_create_revision = None, sort_create = Ascend\<rparr> = Pending
      \<longrightarrow> observe_body ev w =
           (Suspended, perform (RangeKeys (namespace (sess w))
                                  \<lparr>max_create_revision = None, sort_create = Ascend\<rparr>)
                         (upd (\<lambda>s. s\<lparr>isObserving := True\<rparr>) w)))
   \<and> (fst (observe_body ev w) = Suspended
      \<longrightarrow> observe (Suc n) ev' (snd (observe_body ev w)) = Some (Returned (), snd (observe_body ev w))
        \<and> isObserving (sess (onLeaseLost ev' (snd (observe_body ev w))))
        \<and> (\<forall>m op x. run_operation m ev' op (snd (observe_body ev w)) = Some x
              \<longrightarrow> isObserving (sess x)))
   \<and> (\<not> isObserving (sess w)
      \<longrightarrow> observe (Suc n) ev w = (case observe_body ev w of
            (Returned u, w1) \<Rightarrow>
              if leaderListeners (sess w1) > 0
              then map_option (\<lambda>w2. (Returned (), w2)) (tryObserve n ev w1)
              else Some (Returned (), w1)
          | (Raised e, w1) \<Rightarrow> Some (Raised e, w1)
          | (Suspended, w1) \<Rightarrow> Some (Suspended, w1)))
   \<and> (\<forall>e w1. observe n ev w = Some (Raised e, w1)
      \<longrightarrow> \<not> isObserving (sess w1)
        \<and> tryObserve (Suc n) ev w =
            (if errorListeners (sess w1) = 0 then Some (perform (EmitError e) w1)
             else tryObserve n ev (perform (EmitError e) w1)))"
proof (intro conjI allI impI)
  assume "isObserving (sess w)"
  then show "observe (Suc n) ev w = Some (Returned (), w)" by simp
  then show "tryObserve (Suc (Suc n)) ev w = Some w" by simp
next
  show "sess (snd (observe_body ev w)) =
        (sess w)\<lparr>isObserving := (fst (observe_body ev w) = Suspended)\<rparr>"
    by (rule observe_body_sess)
next
  assume "range_keys ev (clock w) (namespace (sess w))
         \<lparr>max_create_revision = None, sort_create = Ascend\<rparr> = Pending"
  then show "observe_body ev w =
           (Suspended, perform (RangeKeys (namespace (sess w))
                                  \<lparr>max_create_revision = None, sort_create = Ascend\<rparr>)
                         (upd (\<lambda>s. s\<lparr>isObserving := True\<rparr>) w))"
    by (rule observe_body_first_await)
next
  assume "fst (observe_body ev w) = Suspended"
  then have up: "isObserving (sess (snd (observe_body ev w)))"
    by (simp add: observe_body_sess)
  then show "observe (Suc n) ev' (snd (observe_body ev w)) = Some (Returned (), snd (observe_body ev w))"
    by simp
  from up show "isObserving (sess (onLeaseLost ev' (snd (observe_body ev w))))"
    by (simp add: onLeaseLost_observing)
  fix m op x
  assume "run_operation m ev' op (snd (observe_body ev w)) = Some x"
  with up show "isObserving (sess x)"
    by (rule run_operation_keeps_observing)
next
  assume "\<not> isObserving (sess w)"
  then show "observe (Suc n) ev w = (case observe_body ev w of
            (Returned u, w1) \<Rightarrow>
              if leaderListeners (sess w1) > 0
              then map_option (\<lambda>w2. (Returned (), w2)) (tryObserve n ev w1)
              else Some (Returned (), w1)
          | (Raised e, w1) \<Rightarrow> Some (Raised e, w1)
          | (Suspended, w1) \<Rightarrow> Some (Suspended, w1))"
    by simp
next
  fix e w1
  assume a: "observe n ev w = Some (Raised e, w1)"
  then show "\<not> isObserving (sess w1)" by (rule observe_raised_not_observing)
  from a show "tryObserve (Suc n) ev w =
            (if errorListeners (sess w1) = 0 then Some (perform (EmitError e) w1)
             else tryObserve n ev (perform (EmitError e) w1))"
    by (simp add: emit_error_def)
qed
lemma store_one_leader_simps [simp]:
  "range_keys store_one_leader t ns q = Resolved [''7587'']"
  "watch_create store_one_leader t ns g = Resolved ()"
  "watch_events store_one_leader t wt = [DeleteEvent]"
  "watch_cancel store_one_leader t wt = Resolved ()"
  by (simp_all add: store_one_leader_def)

lemma store_slow_simps [simp]: "range_keys store_slow t ns q = Pending"
  by (simp add: store_slow_def)

lemma listening_simps [simp]:
  "sess listening = session0\<lparr>errorListeners := 1\<rparr>" "trace listening = []" "clock listening = 0"
  by (simp_all add: listening_def clock_def)

lemma observe_body_one_leader:
  "observe_body store_one_leader world0 =
     (Returned (), \<lparr>sess = session0, trace =
        [RangeKeys ''election/svc/'' \<lparr>max_create_revision = None, sort_create = Ascend\<rparr>,
         EmitLeader ''election/svc/7587'',
         WatchCreate '''' (WatchKey ''election/svc/7587'') 2,
         WatchCancel 2]\<rparr>)"
  by (simp add: observe_body_def try_finally_def keys_cases waitForDelete_def create_watch_def
      await_delete_def cancel_def upd_def perform_def clock_def world0_def session0_def
      namespace_def getPrefix_def Let_def)

lemma observe_body_no_leader:
  "observe_body store_ok world0 =
     (Suspended, \<lparr>sess = session0\<lparr>isObserving := True\<rparr>, trace =
        [RangeKeys ''election/svc/'' \<lparr>max_create_revision = None, sort_create = Ascend\<rparr>,
         WatchCreate '''' (WatchPrefix ''election/svc/'') 1]\<rparr>)"
  by (simp add: observe_body_def try_finally_def keys_cases create_watch_def
      await_put_def cancel_def upd_def perform_def clock_def world0_def session0_def
      namespace_def getPrefix_def Let_def)

lemma observe_body_read_fails:
  "observe_body store_wait_fails world0 =
     (Raised (StoreError ''range read: unavailable''), \<lparr>sess = session0, trace =
        [RangeKeys ''election/svc/'' \<lparr>max_create_revision = None, sort_create = Ascend\<rparr>]\<rparr>)"
  by (simp add: observe_body_def try_finally_def keys_cases upd_def perform_def clock_def
      world0_def session0_def namespace_def getPrefix_def Let_def)

lemma observe_body_read_fails_listening:
  "observe_body store_wait_fails listening =
     (Raised (StoreError ''range read: unavailable''),
      \<lparr>sess = session0\<lparr>errorListeners := 1\<rparr>, trace =
        [RangeKeys ''election/svc/'' \<lparr>max_create_revision = None, sort_create = Ascend\<rparr>]\<rparr>)"
  by (simp add: observe_body_def try_finally_def keys_cases upd_def perform_def clock_def
      listening_def session0_def namespace_def getPrefix_def Let_def)

theorem observe_one_loop_witness:
  "\<not> isObserving (sess world0)
   \<and> observe_body store_slow world0 =
       (Suspended, \<lparr>sess = session0\<lparr>isObserving := True\<rparr>, trace =
          [RangeKeys ''election/svc/'' \<lparr>max_create_revision = None, sort_create = Ascend\<rparr>]\<rparr>)
   \<and> observe 1 store_ok (snd (observe_body store_slow world0))
       = Some (Returned (), snd (observe_body store_slow world0))
   \<and> isObserving (sess (snd (campaign store_ok ''a'' (snd (observe_body store_slow world0)))))
   \<and> fst (observe_body store_ok world0) = Suspended
   \<and> isObserving (sess (snd (observe_body store_ok world0)))
   \<and> observe 1 store_ok (snd (observe_body store_ok world0))
       = Some (Returned (), snd (observe_body store_ok world0))
   \<and> tryObserve 2 store_ok (snd (observe_body store_ok world0))
       = Some (snd (observe_body store_ok world0))
   \<and> fst (observe_body store_one_leader world0) = Returned ()
   \<and> \<not> isObserving (sess (snd (observe_body store_one_leader world0)))
   \<and> observe 1 store_one_leader world0 = Some (observe_body store_one_leader world0)
   \<and> observe 1 store_wait_fails world0 = Some (observe_body store_wait_fails world0)
   \<and> \<not> isObserving (sess (snd (observe_body store_wait_fails world0)))
   \<and> tryObserve 2 store_wait_fails world0 =
       Some (perform (EmitError (StoreError ''range read: unavailable''))
               (snd (observe_body store_wait_fails world0)))
   \<and> tryObserve 2 store_wait_fails listening =
       tryObserve 1 store_wait_fails
         (perform (EmitError (StoreError ''range read: unavailable''))
            (snd (observe_body store_wait_fails listening)))"
proof -
  let ?s = "snd (observe_body store_ok world0)"
  let ?p = "snd (observe_body store_slow world0)"
  let ?q = "\<lparr>max_create_revision = None, sort_create = Ascend\<rparr>"
  let ?e = "StoreError ''range read: unavailable''"
  have a: "\<not> isObserving (sess world0)" by simp
  have b: "fst (observe_body store_ok world0) = Suspended"
    by (simp add: observe_body_no_leader)
  have c: "fst (observe_body store_one_leader world0) = Returned ()"
    by (simp add: observe_body_one_leader)
  have d: "fst (observe_body store_wait_fails world0) = Raised ?e"
    by (simp add: observe_body_read_fails)
  have pend: "range_keys store_slow (clock world0) (namespace (sess world0)) ?q = Pending"
    by simp
  note t0 = observe_one_loop [of world0 0 store_slow store_ok]
  note t1 = observe_one_loop [of world0 0 store_ok store_ok]
  note t2 = observe_one_loop [of ?s 0 store_ok store_ok]
  note t3 = observe_one_loop [of world0 0 store_one_leader store_ok]
  note t4 = observe_one_loop [of world0 0 store_wait_fails store_ok]
  note t5 = observe_one_loop [of world0 1 store_wait_fails store_ok]
  note t6 = observe_one_loop [of listening 1 store_wait_fails store_ok]
  have q0: "observe_body store_slow world0 =
      (Suspended, perform (RangeKeys (namespace (sess world0)) ?q)
                    (upd (\<lambda>s. s\<lparr>isObserving := True\<rparr>) world0))"
    using t0 pend by blast
  then have q1: "observe_body store_slow world0 =
       (Suspended, \<lparr>sess = session0\<lparr>isObserving := True\<rparr>, trace =
          [RangeKeys ''election/svc/'' ?q]\<rparr>)"
    by (simp add: upd_def perform_def world0_def)
  from q0 have q2: "fst (observe_body store_slow world0) = Suspended" by simp
  have q3: "observe 1 store_ok ?p = Some (Returned (), ?p)"
    using t0 q2 by simp
  have r: "run_operation 0 store_ok (Campaign ''a'') ?p = Some (snd (campaign store_ok ''a'' ?p))"
    by simp
  have q4: "isObserving (sess (snd (campaign store_ok ''a'' ?p)))"
    using t0 q2 r by blast
  have p1: "isObserving (sess ?s)"
    using t1 b by simp
  have p2: "observe 1 store_ok ?s = Some (Returned (), ?s) \<and> tryObserve 2 store_ok ?s = Some ?s"
    using t2 p1 by (simp add: numeral_2_eq_2)
  have p3: "\<not> isObserving (sess (snd (observe_body store_one_leader world0)))"
    using t3 c by simp
  have p4: "observe 1 store_one_leader world0 = Some (observe_body store_one_leader world0)"
    using t3 a by (simp add: observe_body_one_leader)
  have p5: "observe 1 store_wait_fails world0 = Some (observe_body store_wait_fails world0)"
    using t4 a by (simp add: observe_body_read_fails)
  have p6: "\<not> isObserving (sess (snd (observe_body store_wait_fails world0)))"
    using t5 p5 by (simp add: observe_body_read_fails)
  have p7: "tryObserve 2 store_wait_fails world0 =
       Some (perform (EmitError ?e) (snd (observe_body store_wait_fails world0)))"
    using t5 p5 by (simp add: observe_body_read_fails numeral_2_eq_2)
  have l5: "observe 1 store_wait_fails listening = Some (observe_body store_wait_fails listening)"
    by (simp add: observe_body_read_fails_listening)
  have p8: "tryObserve 2 store_wait_fails listening =
       tryObserve 1 store_wait_fails
         (perform (EmitError ?e) (snd (observe_body store_wait_fails listening)))"
    using t6 l5 by (simp add: observe_body_read_fails_listening numeral_2_eq_2)
  from a q1 q3 q4 b c p1 p2 p3 p4 p5 p6 p7 p8 show ?thesis by blast
qed

end
